theory Spec2Isabelle
  imports Main "HOL-Library.Sublist"
begin

section \<open>Strings and JavaScript values\<close>

text \<open>
  The protocol is ASCII text, so a JavaScript string is modelled as a \<^typ>\<open>string\<close>, one
  \<^typ>\<open>char\<close> per code unit. The frame terminator is the carriage return.
\<close>

abbreviation CR :: char where
  "CR \<equiv> CHR 0x0D"

text \<open>\<^verbatim>\<open>data.slice(-1) === '\r'\<close>: the last code unit is the terminator. The slice of an
  empty string is empty, so the test fails there.\<close>

definition endsWithCR :: "string \<Rightarrow> bool" where
  "endsWithCR data = (case rev data of [] \<Rightarrow> False | c # _ \<Rightarrow> c = CR)"

text \<open>\<^verbatim>\<open>str.indexOf('\r')\<close>: the offset of the first terminator, or \<open>-1\<close>.\<close>

fun indexOfCR :: "string \<Rightarrow> int" where
  "indexOfCR [] = -1"
| "indexOfCR (c # cs) =
     (if c = CR then 0 else (let i = indexOfCR cs in if i < 0 then -1 else i + 1))"

text \<open>\<^verbatim>\<open>str.substring(n)\<close> with \<open>n \<ge> 0\<close>.\<close>

definition substring :: "string \<Rightarrow> int \<Rightarrow> string" where
  "substring s n = drop (nat n) s"

text \<open>
  The arguments of the caller-facing operations are JavaScript values. A number is either
  \<^verbatim>\<open>NaN\<close> or modelled by its integral value (the identifiers and values of the protocol are
  integers below \<open>2^53\<close>, which a double holds exactly and \<^verbatim>\<open>String\<close> prints in decimal).
\<close>

datatype js_value = JSNumber int | JSNaN | JSBoolean bool | JSUndefined | JSNull

datatype js_error = Error string | TypeError string

text \<open>Decimal rendering of a number that is not negative.\<close>

function digitsOf :: "int \<Rightarrow> string" where
  "digitsOf n =
     (if n < 10 then [char_of (48 + n)] else digitsOf (n div 10) @ [char_of (48 + n mod 10)])"
  by pat_completeness auto
termination
  by (relation "measure nat") auto

definition intToString :: "int \<Rightarrow> string" where
  "intToString i = (if i < 0 then CHR ''-'' # digitsOf (- i) else digitsOf i)"

text \<open>\<^verbatim>\<open>String(v)\<close>, as template literals and \<^verbatim>\<open>String.prototype.replace\<close> apply it.\<close>

fun jsToString :: "js_value \<Rightarrow> string" where
  "jsToString (JSNumber n) = intToString n"
| "jsToString JSNaN = ''NaN''"
| "jsToString (JSBoolean b) = (if b then ''true'' else ''false'')"
| "jsToString JSUndefined = ''undefined''"
| "jsToString JSNull = ''null''"

section \<open>Regular expressions\<close>

text \<open>
  What the engine uses of a \<^verbatim>\<open>RegExp\<close> without the \<^verbatim>\<open>g\<close> and \<^verbatim>\<open>y\<close> flags (all
  patterns of \<^verbatim>\<open>api.js\<close> are such): the leftmost match in a string, its offset and its
  named groups. \<open>groups\<close> is \<open>None\<close> for a pattern without named groups, where
  \<^verbatim>\<open>m.groups\<close> is \<^verbatim>\<open>undefined\<close>; a named group that did not take part in the match is absent
  from the map.
\<close>

record regexp_match =
  index :: nat
  groups :: "(string \<rightharpoonup> string) option"

type_synonym pattern = "string \<Rightarrow> regexp_match option"

text \<open>\<^verbatim>\<open>str.search(regex)\<close>: the offset of the leftmost match, or \<open>-1\<close>.\<close>

definition search :: "string \<Rightarrow> pattern \<Rightarrow> int" where
  "search data regex = (case regex data of None \<Rightarrow> -1 | Some m \<Rightarrow> int (index m))"

text \<open>
  The fragment of the regular-expression syntax that the patterns of \<^verbatim>\<open>api.js\<close> are written
  in: literal characters, \<^verbatim>\<open>\d\<close>, \<^verbatim>\<open>\s\<close>, \<^verbatim>\<open>.\<close>, concatenation, alternation, greedy
  repetition and named groups.
\<close>

datatype re =
    Chr char
  | Digit
  | Space
  | Dot
  | Eps
  | Seq re re
  | Alt re re
  | Star re
  | Group string re

definition isDigit :: "char \<Rightarrow> bool" where
  "isDigit c = (48 \<le> (of_char c :: nat) \<and> (of_char c :: nat) \<le> 57)"

definition isSpace :: "char \<Rightarrow> bool" where
  "isSpace c = ((of_char c :: nat) \<in> {9, 10, 11, 12, 13, 32, 160})"

definition isLineTerminator :: "char \<Rightarrow> bool" where
  "isLineTerminator c = ((of_char c :: nat) \<in> {10, 13})"

text \<open>A matcher state is the input not yet consumed and the groups captured so far.\<close>

type_synonym mstate = "string \<times> (string \<rightharpoonup> string)"

definition oneChar :: "(char \<Rightarrow> bool) \<Rightarrow> mstate \<Rightarrow> mstate list" where
  "oneChar ok st = (case fst st of [] \<Rightarrow> [] | c # cs \<Rightarrow> if ok c then [(cs, snd st)] else [])"

text \<open>Greedy iteration: as many rounds as possible first, then fewer; a round that consumes
  nothing is not repeated. The counter bounds the rounds by the length of the input.\<close>

primrec iterate :: "nat \<Rightarrow> (mstate \<Rightarrow> mstate list) \<Rightarrow> mstate \<Rightarrow> mstate list" where
  "iterate 0 f st = [st]"
| "iterate (Suc n) f st =
     concat (map (iterate n f) (filter (\<lambda>st'. length (fst st') < length (fst st)) (f st))) @ [st]"

text \<open>All ways of matching a prefix of the input, in the order in which a backtracking
  matcher tries them.\<close>

primrec rmatch :: "re \<Rightarrow> mstate \<Rightarrow> mstate list" where
  "rmatch (Chr c) st = oneChar (\<lambda>x. x = c) st"
| "rmatch Digit st = oneChar isDigit st"
| "rmatch Space st = oneChar isSpace st"
| "rmatch Dot st = oneChar (\<lambda>x. \<not> isLineTerminator x) st"
| "rmatch Eps st = [st]"
| "rmatch (Seq a b) st = concat (map (rmatch b) (rmatch a st))"
| "rmatch (Alt a b) st = rmatch a st @ rmatch b st"
| "rmatch (Star a) st = iterate (length (fst st)) (rmatch a) st"
| "rmatch (Group name a) st =
     map (\<lambda>st'. (fst st', (snd st')(name \<mapsto> take (length (fst st) - length (fst st')) (fst st))))
       (rmatch a st)"

primrec hasGroups :: "re \<Rightarrow> bool" where
  "hasGroups (Chr c) = False"
| "hasGroups Digit = False"
| "hasGroups Space = False"
| "hasGroups Dot = False"
| "hasGroups Eps = False"
| "hasGroups (Seq a b) = (hasGroups a \<or> hasGroups b)"
| "hasGroups (Alt a b) = (hasGroups a \<or> hasGroups b)"
| "hasGroups (Star a) = hasGroups a"
| "hasGroups (Group name a) = True"

text \<open>The leftmost match: each start offset in turn, the first way of matching there.\<close>

fun execFrom :: "re \<Rightarrow> nat \<Rightarrow> string \<Rightarrow> regexp_match option" where
  "execFrom r k s =
     (case rmatch r (s, Map.empty) of
        st # _ \<Rightarrow> Some \<lparr>index = k, groups = (if hasGroups r then Some (snd st) else None)\<rparr>
      | [] \<Rightarrow> (case s of [] \<Rightarrow> None | _ # cs \<Rightarrow> execFrom r (Suc k) cs))"

definition regexPattern :: "re \<Rightarrow> pattern" where
  "regexPattern r = execFrom r 0"

fun lit :: "string \<Rightarrow> re" where
  "lit [] = Eps"
| "lit (c # cs) = Seq (Chr c) (lit cs)"

text \<open>\<^verbatim>\<open>a{n}\<close> and \<^verbatim>\<open>a{1,n}\<close>.\<close>

fun exactly :: "nat \<Rightarrow> re \<Rightarrow> re" where
  "exactly 0 a = Eps"
| "exactly (Suc n) a = Seq a (exactly n a)"

fun upTo :: "nat \<Rightarrow> re \<Rightarrow> re" where
  "upTo 0 a = Eps"
| "upTo (Suc n) a = Alt (Seq a (upTo n a)) Eps"

subsection \<open>The reply patterns of \<^verbatim>\<open>api.js\<close>\<close>

text \<open>\<^verbatim>\<open>/(?<ack>ACK)|(?<nak>NAK)\s/\<close>, the reply of every mutating command.\<close>

definition ackNakRegex :: re where
  "ackNakRegex = Alt (Group ''ack'' (lit ''ACK'')) (Seq (Group ''nak'' (lit ''NAK'')) Space)"

text \<open>\<^verbatim>\<open>/\d{1,5} (?<ret>\d{1,5})/\<close>, the reply of \<^verbatim>\<open>controlGet\<close>.\<close>

definition controlGetRegex :: re where
  "controlGetRegex =
     Seq (Seq Digit (upTo 4 Digit)) (Seq (Chr CHR '' '') (Group ''ret'' (Seq Digit (upTo 4 Digit))))"

text \<open>\<^verbatim>\<open>/GSB3 \d{5} \d{5}/\<close>, the header of the reply of \<^verbatim>\<open>controlGetBlock\<close>.\<close>

definition controlGetBlockRegex :: re where
  "controlGetBlockRegex =
     Seq (lit ''GSB3 '') (Seq (exactly 5 Digit) (Seq (Chr CHR '' '') (exactly 5 Digit)))"

text \<open>\<^verbatim>\<open>/GSYSS (?<ret>.*)\s/\<close>, the reply of \<^verbatim>\<open>getSystemString\<close>.\<close>

definition getSystemStringRegex :: re where
  "getSystemStringRegex = Seq (lit ''GSYSS '') (Seq (Group ''ret'' (Star Dot)) Space)"

section \<open>The response parser\<close>

text \<open>\<^verbatim>\<open>Number(str)\<close> on a string of decimal digits.\<close>

definition Number :: "string \<Rightarrow> int" where
  "Number ds = foldl (\<lambda>n c. 10 * n + ((of_char c :: int) - 48)) 0 ds"

text \<open>The pattern of \<^verbatim>\<open>_parseMultiple\<close>, \<^verbatim>\<open>/#(?<id>\d{5})=(?<ret>\d{5})/g\<close>.\<close>

definition recordRegex :: re where
  "recordRegex =
     Seq (Chr CHR ''#'') (Seq (Group ''id'' (exactly 5 Digit))
       (Seq (Chr CHR ''='') (Group ''ret'' (exactly 5 Digit))))"

text \<open>
  One match of that pattern at the very start of the string, written out: the two captured
  digit strings. (That this is what the pattern matches is \<open>rmatch_recordRegex\<close> below.)
\<close>

definition matchRecord :: "string \<Rightarrow> (string \<times> string) option" where
  "matchRecord s =
     (if 12 \<le> length s \<and> s ! 0 = CHR ''#'' \<and> list_all isDigit (take 5 (drop 1 s))
         \<and> s ! 6 = CHR ''='' \<and> list_all isDigit (take 5 (drop 7 s))
      then Some (take 5 (drop 1 s), take 5 (drop 7 s)) else None)"

text \<open>
  \<^verbatim>\<open>_parseMultiple\<close>: \<^verbatim>\<open>data.matchAll\<close> with the global record pattern finds the matches from
  left to right, each search starting where the previous match ended (twelve characters after
  its start). A parsed entry \<^verbatim>\<open>{ id, value }\<close> is the pair \<open>(id, value)\<close>.
\<close>

fun parseMultiple :: "string \<Rightarrow> (int \<times> int) list" where
  "parseMultiple [] = []"
| "parseMultiple (c # cs) =
     (case matchRecord (c # cs) of
        Some (i, v) \<Rightarrow> (Number i, Number v) # parseMultiple (drop 11 cs)
      | None \<Rightarrow> parseMultiple cs)"

text \<open>What a completion handler receives as \<^verbatim>\<open>data\<close>.\<close>

datatype response =
    Scalar string
  | Boolean bool
  | Records "(int \<times> int) list"
  | Undefined

datatype console_line = Log string | ErrorLine string

text \<open>The truthiness of \<^verbatim>\<open>m.groups.name\<close>: \<^verbatim>\<open>undefined\<close> and the empty string are falsy.\<close>

definition truthy :: "string option \<Rightarrow> bool" where
  "truthy v = (case v of None \<Rightarrow> False | Some x \<Rightarrow> x \<noteq> [])"

text \<open>
  \<^verbatim>\<open>_parseSingle\<close>. \<^verbatim>\<open>data.match(regex)\<close> is \<^verbatim>\<open>null\<close> without a match and \<^verbatim>\<open>m.groups\<close> is
  \<^verbatim>\<open>undefined\<close> for a pattern without named groups; reading a property of either throws a
  \<^verbatim>\<open>TypeError\<close>. The second component of the result is what was written to the console.
\<close>

definition parseSingle :: "string \<Rightarrow> pattern \<Rightarrow> js_error + (response \<times> console_line list)" where
  "parseSingle data regex =
     (case regex data of
        None \<Rightarrow> Inl (TypeError ''Cannot read properties of null (reading 'groups')'')
      | Some m \<Rightarrow>
          (case groups m of
             None \<Rightarrow> Inl (TypeError ''Cannot read properties of undefined (reading 'ret')'')
           | Some g \<Rightarrow>
               if truthy (g ''ret'') then Inr (Scalar (case g ''ret'' of Some v \<Rightarrow> v | None \<Rightarrow> []), [])
               else if truthy (g ''ack'') then Inr (Boolean True, [])
               else if truthy (g ''nak'') then Inr (Boolean False, [])
               else Inr (Undefined, [ErrorLine (''Unkown response format '' @ data)])))"

section \<open>The engine's state\<close>

text \<open>\<^verbatim>\<open>sock.readyState\<close> of a \<^verbatim>\<open>net.Socket\<close>.\<close>

datatype ready_state = Opening | Open | ReadOnly | WriteOnly | Closed

text \<open>An entry of \<^verbatim>\<open>_sendBuffer\<close>. A completion handler is a function object; the model
  keeps its identity.\<close>

record queued =
  command :: string
  regex :: pattern
  cb :: nat

text \<open>
  The fields of a \<^verbatim>\<open>Symetrix\<close> instance, and what it has done to the world around it:
  the timers it has armed and not yet cleared or seen fire (handle and delay), the strings
  written to the socket, the completion handlers called (with the \<^verbatim>\<open>data\<close> argument; the
  \<^verbatim>\<open>err\<close> argument is always \<^verbatim>\<open>null\<close>), the \<^verbatim>\<open>push\<close> events emitted and the console
  output.
\<close>

record symetrix =
  debug :: bool
  readyState :: ready_state
  noResponseTimeout :: nat
  recvBuffer :: string
  sendBuffer :: "queued list"
  readyToSend :: bool
  nextResponse :: "pattern option"
  nextCb :: "nat option"
  noResponse :: "nat option"
  timers :: "nat \<rightharpoonup> nat"
  nextTimer :: nat
  written :: "string list"
  fired :: "(nat \<times> response) list"
  pushes :: "(int \<times> int) list list"
  console :: "console_line list"

text \<open>The state the constructor leaves; the socket is still connecting.\<close>

definition constructor :: "bool \<Rightarrow> symetrix" where
  "constructor dbg =
     \<lparr>debug = dbg, readyState = Opening, noResponseTimeout = 2000, recvBuffer = [],
      sendBuffer = [], readyToSend = True, nextResponse = None, nextCb = None,
      noResponse = None, timers = Map.empty, nextTimer = 0, written = [], fired = [],
      pushes = [], console = []\<rparr>"

definition setTimeout :: "nat \<Rightarrow> symetrix \<Rightarrow> nat \<times> symetrix" where
  "setTimeout delay s =
     (nextTimer s, s\<lparr>timers := (timers s)(nextTimer s \<mapsto> delay), nextTimer := Suc (nextTimer s)\<rparr>)"

definition clearTimeout :: "nat option \<Rightarrow> symetrix \<Rightarrow> symetrix" where
  "clearTimeout h s = (case h of None \<Rightarrow> s | Some t \<Rightarrow> s\<lparr>timers := (timers s)(t := None)\<rparr>)"

section \<open>The command sequencer\<close>

text \<open>\<^verbatim>\<open>_send\<close>: the dispatch of one command.\<close>

definition send :: "symetrix \<Rightarrow> string \<Rightarrow> pattern \<Rightarrow> nat \<Rightarrow> symetrix" where
  "send s cmd rx f =
     (let s1 = (if debug s then s\<lparr>console := console s @ [Log (''Sending to Symetrix '' @ cmd)]\<rparr>
                else s)
      in if readyState s1 = Open \<or> readyState s1 = WriteOnly then
           (let s2 = s1\<lparr>readyToSend := False, nextResponse := Some rx, nextCb := Some f,
                        written := written s1 @ [cmd]\<rparr>;
                (h, s3) = setTimeout (noResponseTimeout s2) s2
            in s3\<lparr>noResponse := Some h\<rparr>)
         else s1\<lparr>console := console s1 @
                  [ErrorLine ''Could not send to Symetrix. Socket not ready.'']\<rparr>)"

text \<open>The listener of the \<^verbatim>\<open>readyToSend\<close> event, which \<^verbatim>\<open>emit\<close> runs at once.\<close>

definition onReadyToSend :: "symetrix \<Rightarrow> symetrix" where
  "onReadyToSend s =
     (let s1 = s\<lparr>nextResponse := None, nextCb := None\<rparr>
      in case sendBuffer s1 of
           q # qs \<Rightarrow> send (s1\<lparr>sendBuffer := qs\<rparr>) (command q) (regex q) (cb q)
         | [] \<Rightarrow> s1\<lparr>readyToSend := True\<rparr>)"

text \<open>The no-response timer with handle \<open>h\<close> fires: it emits \<^verbatim>\<open>readyToSend\<close>. A timer
  that was cleared, or has fired already, does not fire.\<close>

definition onNoResponse :: "symetrix \<Rightarrow> nat \<Rightarrow> symetrix" where
  "onNoResponse s h =
     (if timers s h \<noteq> None then onReadyToSend (s\<lparr>timers := (timers s)(h := None)\<rparr>) else s)"

text \<open>The third argument of \<^verbatim>\<open>reqToSend\<close> is any value; only a function passes the check.\<close>

datatype js_callback = JSFunction nat | NotAFunction js_value

text \<open>
  A function body that throws leaves the instance in the state it had at the \<^verbatim>\<open>throw\<close>: the
  outcome \<open>Inl (e, s')\<close> is the exception \<open>e\<close> together with that state, \<open>Inr s'\<close> is the
  body running to its end. Where the exception goes is not part of an outcome: out of a
  listener it goes to the event loop, out of the body of an \<^verbatim>\<open>async\<close> function into the
  promise the call returns.
\<close>

type_synonym outcome = "(js_error \<times> symetrix) + symetrix"

text \<open>The body of \<^verbatim>\<open>reqToSend\<close>, on an instance whose constructor ran to its end. The
  function is declared \<^verbatim>\<open>async\<close> and awaits nothing: the body runs within the call, and
  \<open>Inl\<close> here is the rejection of the promise returned, never an exception that reaches the
  caller (\<open>reqToSendAsync\<close> below is the call as its caller sees it).\<close>

definition reqToSend :: "symetrix \<Rightarrow> string \<Rightarrow> pattern \<Rightarrow> js_callback \<Rightarrow> outcome" where
  "reqToSend s cmd rx c =
     (case c of
        NotAFunction v \<Rightarrow> Inl (Error ''Callback is not a function'', s)
      | JSFunction f \<Rightarrow>
          Inr (if readyToSend s then send s cmd rx f
               else s\<lparr>sendBuffer := sendBuffer s @ [\<lparr>command = cmd, regex = rx, cb = f\<rparr>]\<rparr>))"

subsection \<open>The call of \<^verbatim>\<open>reqToSend\<close>, as its caller sees it\<close>








section \<open>The receive path\<close>

text \<open>
  The push/response split of a complete frame: \<open>split\<close> is the result of the search, the
  components are \<^verbatim>\<open>pushData\<close> and \<^verbatim>\<open>respData\<close>, \<open>None\<close> where the variable stays
  \<^verbatim>\<open>undefined\<close>.
\<close>

definition findSplit :: "pattern option \<Rightarrow> string \<Rightarrow> int" where
  "findSplit nr data = (case nr of None \<Rightarrow> -1 | Some rx \<Rightarrow> search data rx)"

definition classify :: "pattern option \<Rightarrow> string \<Rightarrow> string option \<times> string option" where
  "classify nr data =
     (let split = findSplit nr data
      in if split < 0 then (Some data, None)
         else if split = 0 then (None, Some data)
         else (Some (take (nat split) data), Some (drop (nat split) data)))"

text \<open>The parse of a response segment: the multi-record form after the header line of a
  \<^verbatim>\<open>GSB3\<close> reply, the single-record form otherwise.\<close>

definition parseResponse :: "string \<Rightarrow> pattern option \<Rightarrow> js_error + (response \<times> console_line list)" where
  "parseResponse respData nr =
     (if take 4 respData = ''GSB3''
      then Inr (Records (parseMultiple (substring respData (indexOfCR respData + 1))), [])
      else (case nr of
              None \<Rightarrow> Inl (TypeError ''Cannot read properties of undefined (reading 'ret')'')
            | Some rx \<Rightarrow> parseSingle respData rx))"

definition emitPush :: "symetrix \<Rightarrow> (int \<times> int) list \<Rightarrow> symetrix" where
  "emitPush s recs = s\<lparr>pushes := pushes s @ [recs]\<rparr>"

text \<open>The handler of a complete frame (the part of the \<^verbatim>\<open>data\<close> listener after the frame
  is assembled).\<close>

definition handleFrame :: "symetrix \<Rightarrow> string \<Rightarrow> outcome" where
  "handleFrame s data =
     (let (pushData, respData) = classify (nextResponse s) data;
          s1 = (case pushData of
                  Some p \<Rightarrow> if p \<noteq> [] then emitPush s (parseMultiple p) else s
                | None \<Rightarrow> s)
      in case respData of
           None \<Rightarrow> Inr s1
         | Some r \<Rightarrow>
             if r = [] then Inr s1
             else
               (let s2 = clearTimeout (noResponse s1) s1
                in case parseResponse r (nextResponse s2) of
                     Inl e \<Rightarrow> Inl (e, s2)
                   | Inr (resp, out) \<Rightarrow>
                       (case nextCb s2 of
                          None \<Rightarrow>
                            Inl (TypeError ''this._nextCb is not a function'',
                                 s2\<lparr>console := console s2 @ out\<rparr>)
                        | Some f \<Rightarrow>
                            Inr (onReadyToSend
                                  (s2\<lparr>console := console s2 @ out,
                                      fired := fired s2 @ [(f, resp)]\<rparr>)))))"

text \<open>The \<^verbatim>\<open>data\<close> listener of the socket: the frame assembler, then the frame handler.\<close>

definition onData :: "symetrix \<Rightarrow> string \<Rightarrow> outcome" where
  "onData s data =
     (if \<not> endsWithCR data then Inr (s\<lparr>recvBuffer := recvBuffer s @ data\<rparr>)
      else handleFrame (s\<lparr>recvBuffer := []\<rparr>) (recvBuffer s @ data))"

text \<open>The chunks that the socket hands to the \<^verbatim>\<open>data\<close> listener, one after the other. An
  exception that leaves a listener is uncaught and ends the run.\<close>

fun deliver :: "symetrix \<Rightarrow> string list \<Rightarrow> outcome" where
  "deliver s [] = Inr s"
| "deliver s (c # cs) = (case onData s c of Inl e \<Rightarrow> Inl e | Inr s' \<Rightarrow> deliver s' cs)"

text \<open>Two states for the examples: a connected instance with nothing sent yet, and the
  same after \<^verbatim>\<open>flashUnit\<close> was dispatched with handler 0.\<close>

definition connected :: symetrix where
  "connected = (constructor False)\<lparr>readyState := Open\<rparr>"

definition awaitingAck :: symetrix where
  "awaitingAck = send connected (''$q FU'' @ [CR]) (regexPattern ackNakRegex) 0"

section \<open>Runs of the engine\<close>

text \<open>
  Node runs one callback at a time, to completion. What happens to an instance is a sequence
  of events: a caller submits a command, the socket delivers a chunk, a timer fires, the
  socket changes its state. Completion handlers and \<^verbatim>\<open>push\<close> listeners are taken not to call
  back into the instance before they return (the handlers of the promise-returning operations
  only settle a promise).
\<close>

datatype event =
    Submit string pattern js_callback
  | Data string
  | NoResponse nat
  | SocketState ready_state

fun step :: "symetrix \<Rightarrow> event \<Rightarrow> outcome" where
  "step s (Submit cmd rx c) = reqToSend s cmd rx c"
| "step s (Data d) = onData s d"
| "step s (NoResponse h) = Inr (onNoResponse s h)"
| "step s (SocketState st) = Inr (s\<lparr>readyState := st\<rparr>)"

text \<open>The error of \<^verbatim>\<open>reqToSend\<close> goes to the caller and the run goes on; an exception in a
  listener of the socket ends it.\<close>

fun run :: "symetrix \<Rightarrow> event list \<Rightarrow> outcome" where
  "run s [] = Inr s"
| "run s (e # es) =
     (case step s e of
        Inr s' \<Rightarrow> run s' es
      | Inl (err, s') \<Rightarrow> (case e of Submit cmd rx c \<Rightarrow> run s' es | _ \<Rightarrow> Inl (err, s')))"

definition stateOf :: "outcome \<Rightarrow> symetrix" where
  "stateOf r = (case r of Inl (e, s) \<Rightarrow> s | Inr s \<Rightarrow> s)"

text \<open>The handlers of the commands submitted, completed, in flight and queued, in order.\<close>

fun submitted :: "event list \<Rightarrow> nat list" where
  "submitted [] = []"
| "submitted (Submit cmd rx (JSFunction f) # es) = f # submitted es"
| "submitted (e # es) = submitted es"

definition completed :: "symetrix \<Rightarrow> nat list" where
  "completed s = map fst (fired s)"

definition inFlight :: "symetrix \<Rightarrow> nat list" where
  "inFlight s = (case nextCb s of None \<Rightarrow> [] | Some f \<Rightarrow> [f])"

definition waiting :: "symetrix \<Rightarrow> nat list" where
  "waiting s = map cb (sendBuffer s)"

definition writable :: "symetrix \<Rightarrow> bool" where
  "writable s = (readyState s = Open \<or> readyState s = WriteOnly)"

definition debugLine :: "symetrix \<Rightarrow> string \<Rightarrow> console_line list" where
  "debugLine s cmd = (if debug s then [Log (''Sending to Symetrix '' @ cmd)] else [])"

text \<open>
  The sequencer's consistency: when the instance is ready to send, nothing is in flight and
  nothing is queued; the expected pattern and the handler of the command in flight are set
  and cleared together; a timer is pending only while a command is in flight, and it is the
  one whose handle \<^verbatim>\<open>_noResponse\<close> holds.
\<close>

definition singleFlight :: "symetrix \<Rightarrow> bool" where
  "singleFlight s =
     ((readyToSend s \<longrightarrow> nextCb s = None \<and> sendBuffer s = []) \<and>
      (nextResponse s = None \<longleftrightarrow> nextCb s = None) \<and>
      (\<forall>h. timers s h \<noteq> None \<longrightarrow> noResponse s = Some h \<and> nextCb s \<noteq> None))"

text \<open>The handlers the engine has called or still holds: completed, then in flight, then
  queued.\<close>

definition handlers :: "symetrix \<Rightarrow> nat list" where
  "handlers s = completed s @ inFlight s @ waiting s"

text \<open>Events after which no command is lost: no timer fires and the socket stays
  writable.\<close>

fun undisturbed :: "event \<Rightarrow> bool" where
  "undisturbed (Submit cmd rx c) = True"
| "undisturbed (Data d) = True"
| "undisturbed (NoResponse h) = False"
| "undisturbed (SocketState st) = (st = Open \<or> st = WriteOnly)"

text \<open>An example run: the socket connects; three commands and one call with a bad handler
  are submitted; a push arrives glued to the first reply; the timer of the second command
  fires; a late reply to it arrives in two chunks.\<close>

definition exampleRun :: "event list" where
  "exampleRun =
     [SocketState Open,
      Submit (''$q FU'' @ [CR]) (regexPattern ackNakRegex) (JSFunction 0),
      Submit (''$q GS2 7'' @ [CR]) (regexPattern controlGetRegex) (JSFunction 1),
      Submit (''$q R!'' @ [CR]) (regexPattern ackNakRegex) (NotAFunction JSUndefined),
      Submit (''$q FU'' @ [CR]) (regexPattern ackNakRegex) (JSFunction 2),
      Data (''#00001=00002'' @ [CR] @ ''ACK'' @ [CR]),
      NoResponse 1,
      Data ''7 00'',
      Data (''012'' @ [CR])]"

text \<open>The state after the first five events of the example: the first command is in
  flight, two are queued.\<close>

definition exampleState :: symetrix where
  "exampleState = stateOf (run (constructor False) (take 5 exampleRun))"

text \<open>The part of the state that decides what the sequencer does next, and what it has
  written.\<close>

definition sequencer ::
  "symetrix \<Rightarrow> queued list \<times> bool \<times> pattern option \<times> nat option \<times> nat option \<times>
     (nat \<rightharpoonup> nat) \<times> nat \<times> string list" where
  "sequencer s =
     (sendBuffer s, readyToSend s, nextResponse s, nextCb s, noResponse s, timers s, nextTimer s,
      written s)"

section \<open>Commands and their validation\<close>

text \<open>\<^verbatim>\<open>validRange\<close>: a value that is not a number fails; \<^verbatim>\<open>NaN\<close> is a number for which both
  comparisons are false.\<close>

definition validRange :: "js_value \<Rightarrow> int \<Rightarrow> int \<Rightarrow> bool" where
  "validRange v low high =
     (case v of
        JSNumber n \<Rightarrow> if n < low \<or> n > high then False else True
      | JSNaN \<Rightarrow> True
      | _ \<Rightarrow> False)"

definition validControlId :: "js_value \<Rightarrow> bool" where
  "validControlId i = validRange i 0 10000"

definition validControlValue :: "js_value \<Rightarrow> bool" where
  "validControlValue v = validRange v 0 65535"

text \<open>An entry of the \<^verbatim>\<open>commands\<close> table of \<^verbatim>\<open>api.js\<close>; \<open>args\<close> lists the argument names with
  their placeholders, in the order of the object literal.\<close>

record command_entry =
  base :: string
  args :: "(string \<times> string) list"
  respRegex :: pattern

text \<open>The entries of the control commands.\<close>

definition commands :: "string \<rightharpoonup> command_entry" where
  "commands = map_of
     [(''controlSet'',
         \<lparr>base = ''CS {CID} {VAL}'', args = [(''id'', ''CID''), (''value'', ''VAL'')],
          respRegex = regexPattern ackNakRegex\<rparr>),
      (''changeController'',
         \<lparr>base = ''CC {CID} {DECINC} {VAL}'',
          args = [(''id'', ''CID''), (''decinc'', ''DECINC''), (''value'', ''VAL'')],
          respRegex = regexPattern ackNakRegex\<rparr>),
      (''controlGet'',
         \<lparr>base = ''GS2 {CID}'', args = [(''id'', ''CID'')],
          respRegex = regexPattern controlGetRegex\<rparr>),
      (''controlGetBlock'',
         \<lparr>base = ''GSB3 {CID} {SIZE}'', args = [(''id'', ''CID''), (''size'', ''SIZE'')],
          respRegex = regexPattern controlGetBlockRegex\<rparr>)]"

text \<open>\<^verbatim>\<open>str.replace(pattern, replacement)\<close> with a string pattern replaces the first
  occurrence. (The replacements made here contain no \<^verbatim>\<open>$\<close>.)\<close>

fun replaceFirst :: "string \<Rightarrow> string \<Rightarrow> string \<Rightarrow> string" where
  "replaceFirst pat rep [] = (if pat = [] then rep else [])"
| "replaceFirst pat rep (c # cs) =
     (if take (length pat) (c # cs) = pat then rep @ drop (length pat) (c # cs)
      else c # replaceFirst pat rep cs)"

definition trim :: "string \<Rightarrow> string" where
  "trim s = rev (dropWhile isSpace (rev (dropWhile isSpace s)))"

text \<open>The argument object of \<^verbatim>\<open>getCommand\<close>; a missing property reads as \<^verbatim>\<open>undefined\<close>.\<close>

type_synonym in_args = "string \<rightharpoonup> js_value"

definition getProp :: "in_args \<Rightarrow> string \<Rightarrow> js_value" where
  "getProp inArgs name = (case inArgs name of None \<Rightarrow> JSUndefined | Some v \<Rightarrow> v)"

text \<open>\<^verbatim>\<open>v >= 0\<close>, \<^verbatim>\<open>Math.abs(v)\<close> and the truthiness of a value.\<close>

fun geZero :: "js_value \<Rightarrow> bool" where
  "geZero (JSNumber n) = (n \<ge> 0)"
| "geZero JSNaN = False"
| "geZero (JSBoolean b) = True"
| "geZero JSUndefined = False"
| "geZero JSNull = True"

fun mathAbs :: "js_value \<Rightarrow> js_value" where
  "mathAbs (JSNumber n) = JSNumber (abs n)"
| "mathAbs JSNaN = JSNaN"
| "mathAbs (JSBoolean b) = JSNumber (if b then 1 else 0)"
| "mathAbs JSUndefined = JSNaN"
| "mathAbs JSNull = JSNumber 0"

fun jsTruthy :: "js_value \<Rightarrow> bool" where
  "jsTruthy (JSNumber n) = (n \<noteq> 0)"
| "jsTruthy JSNaN = False"
| "jsTruthy (JSBoolean b) = b"
| "jsTruthy JSUndefined = False"
| "jsTruthy JSNull = False"

text \<open>The loop of \<^verbatim>\<open>buildCommandString\<close> over the arguments of the entry. The \<^verbatim>\<open>decinc\<close>
  case also replaces \<^verbatim>\<open>inArgs.value\<close> by its absolute value.\<close>

fun substitute :: "(string \<times> string) list \<Rightarrow> in_args \<Rightarrow> string \<Rightarrow> string" where
  "substitute [] inArgs cmd = cmd"
| "substitute ((arg, placeholder) # rest) inArgs cmd =
     (if arg = ''decinc'' then
        substitute rest (inArgs(''value'' \<mapsto> mathAbs (getProp inArgs ''value'')))
          (replaceFirst (''{'' @ placeholder @ ''}'')
             (if geZero (getProp inArgs ''value'') then ''1'' else ''0'') cmd)
      else if arg = ''enable'' then
        substitute rest inArgs
          (replaceFirst (''{'' @ placeholder @ ''}'')
             (if jsTruthy (getProp inArgs ''enable'') then ''E'' else ''D'') cmd)
      else
        substitute rest inArgs
          (replaceFirst (''{'' @ placeholder @ ''}'')
             (case getProp inArgs arg of JSUndefined \<Rightarrow> [] | v \<Rightarrow> jsToString v) cmd))"

text \<open>\<^verbatim>\<open>getCommand\<close> (\<^verbatim>\<open>buildCommandString\<close>): \<open>None\<close> is \<^verbatim>\<open>undefined\<close>, for a name that is
  not in the table.\<close>

definition getCommand :: "string \<Rightarrow> in_args \<Rightarrow> (string \<times> pattern) option" where
  "getCommand name inArgs =
     (case commands name of
        None \<Rightarrow> None
      | Some entry \<Rightarrow>
          Some (trim (substitute (args entry) inArgs (''$q '' @ base entry)) @ [CR],
                respRegex entry))"

text \<open>
  A caller-facing operation returns a promise and runs its executor at once. The result
  here is the error the executor rejected the promise with (\<open>None\<close> when it did not), and
  the outcome of the rest of the executor, which hands the command to \<^verbatim>\<open>reqToSend\<close> with a
  new handler \<open>k\<close> that settles the promise when it is called. Destructuring \<^verbatim>\<open>undefined\<close>
  throws.
\<close>

definition submitCommand ::
  "symetrix \<Rightarrow> nat \<Rightarrow> string \<Rightarrow> in_args \<Rightarrow> outcome" where
  "submitCommand s k name inArgs =
     (case getCommand name inArgs of
        None \<Rightarrow> Inl (TypeError ''Cannot destructure property of undefined'', s)
      | Some (cmd, response) \<Rightarrow> reqToSend s cmd response (JSFunction k))"

definition controlSet :: "symetrix \<Rightarrow> nat \<Rightarrow> js_value \<Rightarrow> js_value \<Rightarrow> js_error option \<times> outcome" where
  "controlSet s k i v =
     ((if \<not> validControlId i \<or> \<not> validControlValue v
       then Some (Error (''controlSet invalid id '' @ jsToString i @ '' or value '' @ jsToString v))
       else None),
      submitCommand s k ''controlSet'' [''id'' \<mapsto> i, ''value'' \<mapsto> v])"

definition controlChange :: "symetrix \<Rightarrow> nat \<Rightarrow> js_value \<Rightarrow> js_value \<Rightarrow> js_error option \<times> outcome" where
  "controlChange s k i v =
     ((if \<not> validControlId i \<or> \<not> validRange v (-65535) 65535
       then Some (Error (''controlChange invalid id '' @ jsToString i @ '' or value ''
                         @ jsToString v))
       else None),
      submitCommand s k ''changeController'' [''id'' \<mapsto> i, ''value'' \<mapsto> v])"

definition controlGet :: "symetrix \<Rightarrow> nat \<Rightarrow> js_value \<Rightarrow> js_error option \<times> outcome" where
  "controlGet s k i =
     ((if \<not> validControlId i then Some (Error (''controlGet invalid id '' @ jsToString i))
       else None),
      submitCommand s k ''controlGet'' [''id'' \<mapsto> i])"

definition controlGetBlock :: "symetrix \<Rightarrow> nat \<Rightarrow> js_value \<Rightarrow> js_value \<Rightarrow> js_error option \<times> outcome" where
  "controlGetBlock s k i sz =
     ((if \<not> validControlId i \<or> \<not> validRange sz 1 256
       then Some (Error (''controlGetBlock invalid id '' @ jsToString i @ '' or size ''
                         @ jsToString sz))
       else None),
      submitCommand s k ''controlGetBlock'' [''id'' \<mapsto> i, ''size'' \<mapsto> sz])"

text \<open>A connected instance after \<^verbatim>\<open>getSystemString\<close> was dispatched with handler 0.\<close>

definition awaitingSystemString :: symetrix where
  "awaitingSystemString =
     send connected (''$q GSYSS 1'' @ [CR]) (regexPattern getSystemStringRegex) 0"

text \<open>A connected instance after \<^verbatim>\<open>controlGetBlock(1, 2)\<close> was dispatched with handler 0.\<close>

definition awaitingBlock :: symetrix where
  "awaitingBlock =
     send connected (''$q GSB3 1 2'' @ [CR]) (regexPattern controlGetBlockRegex) 0"

text \<open>
  What a caller can observe of a failed call, in the words of the specification: a condition
  is surfaced to the caller of \<^verbatim>\<open>reqToSend\<close> when the call throws (its promise rejects) or
  a completion handler is called.
\<close>

definition surfacedToCaller :: "symetrix \<Rightarrow> outcome \<Rightarrow> bool" where
  "surfacedToCaller s r = (case r of Inl (e, s') \<Rightarrow> True | Inr s' \<Rightarrow> fired s' \<noteq> fired s)"

text \<open>
  A sequencer that has stopped: it is not ready to send, nothing is in flight and no timer is
  pending, so neither a reply nor a timeout will ever emit \<^verbatim>\<open>readyToSend\<close> again.
\<close>

definition stalled :: "symetrix \<Rightarrow> bool" where
  "stalled s =
     (\<not> readyToSend s \<and> nextCb s = None \<and> nextResponse s = None \<and> (\<forall>h. timers s h = None))"

text \<open>The example after its first five events, when the socket has closed; the same when
  the timer of the command in flight has then fired; and what may follow: the socket
  reconnects, a fourth command is submitted, a reply arrives and timers fire.\<close>

definition disconnectedState :: symetrix where
  "disconnectedState =
     stateOf (run (constructor False) (take 5 exampleRun @ [SocketState Closed]))"

definition stalledState :: symetrix where
  "stalledState = onNoResponse disconnectedState 0"

definition afterStall :: "event list" where
  "afterStall =
     [SocketState Open,
      Submit (''$q FU'' @ [CR]) (regexPattern ackNakRegex) (JSFunction 3),
      Data (''ACK'' @ [CR]),
      NoResponse 0,
      NoResponse 1]"

section \<open>The record pattern\<close>

text \<open>\<^verbatim>\<open>matchRecord\<close> is the match of the record pattern at the start of a string: where it
  fails the pattern does not match, and where it succeeds the pattern matches in one way,
  consuming twelve characters and capturing the same two digit strings.\<close>

lemma rmatch_exactly_Digit:
  "rmatch (exactly n Digit) (s, g) =
     (if n \<le> length s \<and> list_all isDigit (take n s) then [(drop n s, g)] else [])"
proof (induction n arbitrary: s)
  case 0
  show ?case by simp
next
  case (Suc n)
  show ?case
  proof (cases s)
    case Nil
    then show ?thesis by (simp add: oneChar_def)
  next
    case (Cons c cs)
    with Suc [of cs] show ?thesis by (simp add: oneChar_def)
  qed
qed

lemma rmatch_recordRegex:
  "rmatch recordRegex (s, Map.empty) =
     (case matchRecord s of
        None \<Rightarrow> []
      | Some (i, v) \<Rightarrow> [(drop 12 s, [''id'' \<mapsto> i, ''ret'' \<mapsto> v])])"
proof (cases s)
  case Nil
  then show ?thesis by (simp add: recordRegex_def oneChar_def matchRecord_def)
next
  case (Cons c cs)
  show ?thesis
  proof (cases "c = CHR ''#'' \<and> 5 \<le> length cs \<and> list_all isDigit (take 5 cs)")
    case False
    with Cons show ?thesis
      by (auto simp: recordRegex_def oneChar_def rmatch_exactly_Digit matchRecord_def)
  next
    case True
    then obtain i rest where cs: "cs = i @ rest" "length i = 5" "list_all isDigit i"
      by (metis append_take_drop_id length_take min.absorb2)
    show ?thesis
    proof (cases rest)
      case Nil
      with Cons True cs show ?thesis
        by (simp add: recordRegex_def oneChar_def rmatch_exactly_Digit matchRecord_def)
    next
      case (Cons e es)
      with \<open>s = c # cs\<close> True cs show ?thesis
        by (auto simp: recordRegex_def oneChar_def rmatch_exactly_Digit matchRecord_def
            nth_append min_def)
    qed
  qed
qed

section \<open>Basic facts about the sequencer\<close>

text \<open>\<^verbatim>\<open>_send\<close> has two outcomes: the socket is writable and the command is dispatched, or
  it is not and only the console changes.\<close>

lemma send_writable:
  "writable s \<Longrightarrow>
   send s cmd rx f =
     s\<lparr>readyToSend := False, nextResponse := Some rx, nextCb := Some f,
       noResponse := Some (nextTimer s),
       timers := (timers s)(nextTimer s \<mapsto> noResponseTimeout s),
       nextTimer := Suc (nextTimer s),
       written := written s @ [cmd],
       console := console s @ debugLine s cmd\<rparr>"
  by (auto simp: send_def writable_def debugLine_def setTimeout_def Let_def)

lemma send_not_writable:
  "\<not> writable s \<Longrightarrow>
   send s cmd rx f =
     s\<lparr>console := console s @ debugLine s cmd @
        [ErrorLine ''Could not send to Symetrix. Socket not ready.'']\<rparr>"
  by (auto simp: send_def writable_def debugLine_def Let_def)

lemma recvBuffer_send [simp]: "recvBuffer (send s cmd rx f) = recvBuffer s"
  by (cases "writable s") (simp_all add: send_writable send_not_writable)

lemma recvBuffer_onReadyToSend [simp]: "recvBuffer (onReadyToSend s) = recvBuffer s"
  by (simp add: onReadyToSend_def Let_def split: list.splits)

lemma recvBuffer_handleFrame: "handleFrame s data = Inr s' \<Longrightarrow> recvBuffer s' = recvBuffer s"
  by (auto simp: handleFrame_def Let_def emitPush_def clearTimeout_def
      split: prod.splits option.splits if_splits sum.splits)

lemma singleFlight_constructor: "singleFlight (constructor dbg)"
  by (simp add: singleFlight_def constructor_def)

lemma singleFlight_send:
  assumes "nextCb s = None" "nextResponse s = None" "\<forall>h. timers s h = None"
    "readyToSend s \<longrightarrow> sendBuffer s = []"
  shows "singleFlight (send s cmd rx f)"
  using assms by (cases "writable s") (auto simp: send_writable send_not_writable singleFlight_def)

lemma singleFlight_onReadyToSend:
  assumes "\<forall>h. timers s h = None" "readyToSend s \<longrightarrow> sendBuffer s = []"
  shows "singleFlight (onReadyToSend s)"
proof (cases "sendBuffer s")
  case Nil
  then show ?thesis using assms by (simp add: onReadyToSend_def singleFlight_def)
next
  case (Cons q qs)
  then show ?thesis using assms
    by (simp add: onReadyToSend_def singleFlight_send)
qed

lemma handlers_send:
  "nextCb s = None \<Longrightarrow> subseq (handlers (send s cmd rx f)) (completed s @ f # waiting s)"
  by (cases "writable s")
     (auto simp: send_writable send_not_writable handlers_def completed_def inFlight_def waiting_def subseq_append')

lemma handlers_onReadyToSend:
  "subseq (handlers (onReadyToSend s)) (completed s @ waiting s)"
proof (cases "sendBuffer s")
  case Nil
  then show ?thesis
    by (simp add: onReadyToSend_def handlers_def completed_def inFlight_def waiting_def)
next
  case (Cons q qs)
  have "subseq (handlers (send (s\<lparr>nextResponse := None, nextCb := None, sendBuffer := qs\<rparr>) (command q) (regex q) (cb q)))
     (completed (s\<lparr>nextResponse := None, nextCb := None, sendBuffer := qs\<rparr>) @ cb q # waiting (s\<lparr>nextResponse := None, nextCb := None, sendBuffer := qs\<rparr>))"
    by (rule handlers_send) simp
  then show ?thesis using Cons
    by (simp add: onReadyToSend_def completed_def waiting_def)
qed

lemma stateOf_simps [simp]: "stateOf (Inr s) = s" "stateOf (Inl (e, s)) = s"
  by (simp_all add: stateOf_def)

lemma timers_cleared:
  "singleFlight s \<Longrightarrow> timers (clearTimeout (noResponse s) s) h = None"
  by (cases "timers s h") (auto simp: singleFlight_def clearTimeout_def split: option.splits)

lemma singleFlight_pushes [simp]: "singleFlight (s\<lparr>pushes := p\<rparr>) = singleFlight s"
  by (simp add: singleFlight_def)

lemma singleFlight_console [simp]: "singleFlight (s\<lparr>console := p\<rparr>) = singleFlight s"
  by (simp add: singleFlight_def)

lemma singleFlight_recvBuffer [simp]: "singleFlight (s\<lparr>recvBuffer := p\<rparr>) = singleFlight s"
  by (simp add: singleFlight_def)

lemma singleFlight_readyState [simp]: "singleFlight (s\<lparr>readyState := p\<rparr>) = singleFlight s"
  by (simp add: singleFlight_def)

lemma singleFlight_clearTimeout:
  "singleFlight s \<Longrightarrow> singleFlight (clearTimeout h s)"
  by (auto simp: singleFlight_def clearTimeout_def split: option.splits)

lemma singleFlight_completion:
  assumes "singleFlight s"
  shows "singleFlight (onReadyToSend ((clearTimeout (noResponse s) s)\<lparr>console := c, fired := fs\<rparr>))"
proof (rule singleFlight_onReadyToSend)
  show "\<forall>h. timers ((clearTimeout (noResponse s) s)\<lparr>console := c, fired := fs\<rparr>) h = None"
    using timers_cleared [OF assms] by simp
  show "readyToSend ((clearTimeout (noResponse s) s)\<lparr>console := c, fired := fs\<rparr>) \<longrightarrow>
    sendBuffer ((clearTimeout (noResponse s) s)\<lparr>console := c, fired := fs\<rparr>) = []"
    using assms by (auto simp: singleFlight_def clearTimeout_def split: option.splits)
qed

lemma singleFlight_handleFrame:
  assumes "singleFlight s"
  shows "singleFlight (stateOf (handleFrame s data))"
proof -
  obtain pushData respData where c: "classify (nextResponse s) data = (pushData, respData)"
    by (cases "classify (nextResponse s) data")
  define s1 where "s1 = (case pushData of
                  Some p \<Rightarrow> if p \<noteq> [] then emitPush s (parseMultiple p) else s
                | None \<Rightarrow> s)"
  have s1: "s1 = s \<or> (\<exists>p. s1 = s\<lparr>pushes := p\<rparr>)"
    by (auto simp: s1_def emitPush_def split: option.splits)
  then have sf: "singleFlight s1" using assms by auto
  from s1 have nr: "noResponse s1 = noResponse s" by auto
  show ?thesis
    using c sf singleFlight_completion [OF sf] singleFlight_clearTimeout [OF sf]
    by (auto simp: handleFrame_def s1_def [symmetric] Let_def split: option.splits sum.splits)
qed

lemma handlers_fields [simp]:
  "handlers (s\<lparr>pushes := p\<rparr>) = handlers s"
  "handlers (s\<lparr>console := c\<rparr>) = handlers s"
  "handlers (s\<lparr>recvBuffer := b\<rparr>) = handlers s"
  "handlers (s\<lparr>readyState := st\<rparr>) = handlers s"
  "handlers (s\<lparr>timers := t\<rparr>) = handlers s"
  by (simp_all add: handlers_def completed_def inFlight_def waiting_def)

lemma handlers_clearTimeout [simp]: "handlers (clearTimeout h s) = handlers s"
  by (simp add: clearTimeout_def split: option.splits)

lemma handlers_onReadyToSend_writable:
  "writable s \<Longrightarrow> handlers (onReadyToSend s) = completed s @ waiting s"
  by (cases "sendBuffer s")
     (simp_all add: onReadyToSend_def send_writable writable_def handlers_def completed_def
        inFlight_def waiting_def)

lemma writable_fields [simp]:
  "writable (s\<lparr>pushes := p\<rparr>) = writable s"
  "writable (s\<lparr>console := c\<rparr>) = writable s"
  "writable (s\<lparr>recvBuffer := b\<rparr>) = writable s"
  "writable (s\<lparr>fired := f\<rparr>) = writable s"
  "writable (s\<lparr>timers := t\<rparr>) = writable s"
  "writable (s\<lparr>sendBuffer := q\<rparr>) = writable s"
  "writable (s\<lparr>nextCb := n\<rparr>) = writable s"
  "writable (s\<lparr>nextResponse := r\<rparr>) = writable s"
  "writable (s\<lparr>readyToSend := y\<rparr>) = writable s"
  by (simp_all add: writable_def)

lemma writable_clearTimeout [simp]: "writable (clearTimeout h s) = writable s"
  by (simp add: clearTimeout_def split: option.splits)

lemma writable_send [simp]: "writable (send s cmd rx f) = writable s"
  by (cases "writable s") (simp_all add: send_writable send_not_writable, simp_all add: writable_def)

lemma writable_onReadyToSend [simp]: "writable (onReadyToSend s) = writable s"
  by (cases "sendBuffer s") (simp_all add: onReadyToSend_def)

text \<open>The frame handler: what it can do to the handlers in the engine.\<close>

lemma handleFrame_outcomes:
  "(\<exists>s1. (s1 = s \<or> (\<exists>p. s1 = s\<lparr>pushes := p\<rparr>)) \<and>
      (handleFrame s data = Inr s1 \<or>
       (\<exists>e c. handleFrame s data = Inl (e, (clearTimeout (noResponse s1) s1)\<lparr>console := c\<rparr>)) \<or>
       (\<exists>e. handleFrame s data = Inl (e, clearTimeout (noResponse s1) s1)) \<or>
       (\<exists>f resp c. nextCb s = Some f \<and> handleFrame s data =
          Inr (onReadyToSend ((clearTimeout (noResponse s1) s1)
                 \<lparr>console := c, fired := fired s1 @ [(f, resp)]\<rparr>)))))"
proof -
  obtain pushData respData where c: "classify (nextResponse s) data = (pushData, respData)"
    by (cases "classify (nextResponse s) data")
  define s1 where "s1 = (case pushData of
                  Some p \<Rightarrow> if p \<noteq> [] then emitPush s (parseMultiple p) else s
                | None \<Rightarrow> s)"
  have s1: "s1 = s \<or> (\<exists>p. s1 = s\<lparr>pushes := p\<rparr>)"
    by (auto simp: s1_def emitPush_def split: option.splits)
  then have cb: "nextCb (clearTimeout (noResponse s1) s1) = nextCb s"
    by (auto simp: clearTimeout_def split: option.splits)
  have f: "fired (clearTimeout (noResponse s1) s1) = fired s1"
    by (auto simp: clearTimeout_def split: option.splits)
  show ?thesis
    apply (rule exI [of _ s1])
    using c s1 cb f
    apply (simp add: handleFrame_def s1_def [symmetric] Let_def split: option.splits sum.splits prod.splits)
    apply blast
    done
qed

lemma handlers_completion:
  assumes "nextCb s = Some f"
  shows "subseq (handlers (onReadyToSend (s\<lparr>console := c, fired := fired s @ [(f, resp)]\<rparr>)))
           (handlers s)"
proof -
  have "completed (s\<lparr>console := c, fired := fired s @ [(f, resp)]\<rparr>)
          @ waiting (s\<lparr>console := c, fired := fired s @ [(f, resp)]\<rparr>) = handlers s"
    using assms by (simp add: handlers_def completed_def inFlight_def waiting_def)
  then show ?thesis
    using handlers_onReadyToSend [of "s\<lparr>console := c, fired := fired s @ [(f, resp)]\<rparr>"]
    by simp
qed

lemma handlers_completion_writable:
  assumes "nextCb s = Some f" "writable s"
  shows "handlers (onReadyToSend (s\<lparr>console := c, fired := fired s @ [(f, resp)]\<rparr>))
           = handlers s"
  using assms
  by (simp add: handlers_onReadyToSend_writable)
     (simp add: handlers_def completed_def inFlight_def waiting_def)

lemma handleFrame_cases:
  obtains s1 where "s1 = s \<or> (\<exists>p. s1 = s\<lparr>pushes := p\<rparr>)" and
    "handleFrame s data = Inr s1 \<or>
       (\<exists>e c. handleFrame s data = Inl (e, (clearTimeout (noResponse s1) s1)\<lparr>console := c\<rparr>)) \<or>
       (\<exists>e. handleFrame s data = Inl (e, clearTimeout (noResponse s1) s1)) \<or>
       (\<exists>f resp c. nextCb s = Some f \<and> handleFrame s data =
          Inr (onReadyToSend ((clearTimeout (noResponse s1) s1)
                 \<lparr>console := c, fired := fired s1 @ [(f, resp)]\<rparr>)))"
  using handleFrame_outcomes [of s data] by (elim exE conjE) (rule that)

lemma handlers_handleFrame: "subseq (handlers (stateOf (handleFrame s data))) (handlers s)"
proof -
  obtain s1 where
    s1: "s1 = s \<or> (\<exists>p. s1 = s\<lparr>pushes := p\<rparr>)" and
    out: "handleFrame s data = Inr s1 \<or>
       (\<exists>e c. handleFrame s data = Inl (e, (clearTimeout (noResponse s1) s1)\<lparr>console := c\<rparr>)) \<or>
       (\<exists>e. handleFrame s data = Inl (e, clearTimeout (noResponse s1) s1)) \<or>
       (\<exists>f resp c. nextCb s = Some f \<and> handleFrame s data =
          Inr (onReadyToSend ((clearTimeout (noResponse s1) s1)
                 \<lparr>console := c, fired := fired s1 @ [(f, resp)]\<rparr>)))"
    by (rule handleFrame_cases)
  from s1 have h: "handlers s1 = handlers s" by (elim disjE exE) simp_all
  from s1 have n: "nextCb s1 = nextCb s" by (elim disjE exE) simp_all
  have fc: "fired (clearTimeout (noResponse s1) s1) = fired s1"
    by (simp add: clearTimeout_def split: option.splits)
  have nc: "nextCb (clearTimeout (noResponse s1) s1) = nextCb s1"
    by (simp add: clearTimeout_def split: option.splits)
  from out show ?thesis
  proof (elim disjE exE conjE)
    fix f resp c
    assume f: "nextCb s = Some f" and r: "handleFrame s data =
          Inr (onReadyToSend ((clearTimeout (noResponse s1) s1)
                 \<lparr>console := c, fired := fired s1 @ [(f, resp)]\<rparr>))"
    have "subseq (handlers (onReadyToSend ((clearTimeout (noResponse s1) s1)
        \<lparr>console := c, fired := fired (clearTimeout (noResponse s1) s1) @ [(f, resp)]\<rparr>)))
           (handlers (clearTimeout (noResponse s1) s1))"
      by (rule handlers_completion) (simp add: nc n f)
    then show ?thesis using r h by (simp add: fc)
  qed (simp_all add: h)
qed

lemma handlers_handleFrame_writable:
  assumes "writable s"
  shows "handlers (stateOf (handleFrame s data)) = handlers s"
proof -
  obtain s1 where
    s1: "s1 = s \<or> (\<exists>p. s1 = s\<lparr>pushes := p\<rparr>)" and
    out: "handleFrame s data = Inr s1 \<or>
       (\<exists>e c. handleFrame s data = Inl (e, (clearTimeout (noResponse s1) s1)\<lparr>console := c\<rparr>)) \<or>
       (\<exists>e. handleFrame s data = Inl (e, clearTimeout (noResponse s1) s1)) \<or>
       (\<exists>f resp c. nextCb s = Some f \<and> handleFrame s data =
          Inr (onReadyToSend ((clearTimeout (noResponse s1) s1)
                 \<lparr>console := c, fired := fired s1 @ [(f, resp)]\<rparr>)))"
    by (rule handleFrame_cases)
  from s1 have h: "handlers s1 = handlers s" by (elim disjE exE) simp_all
  from s1 have n: "nextCb s1 = nextCb s" by (elim disjE exE) simp_all
  from s1 assms have w: "writable s1" by (elim disjE exE) simp_all
  have fc: "fired (clearTimeout (noResponse s1) s1) = fired s1"
    by (simp add: clearTimeout_def split: option.splits)
  have nc: "nextCb (clearTimeout (noResponse s1) s1) = nextCb s1"
    by (simp add: clearTimeout_def split: option.splits)
  from out show ?thesis
  proof (elim disjE exE conjE)
    fix f resp c
    assume f: "nextCb s = Some f" and r: "handleFrame s data =
          Inr (onReadyToSend ((clearTimeout (noResponse s1) s1)
                 \<lparr>console := c, fired := fired s1 @ [(f, resp)]\<rparr>))"
    have "handlers (onReadyToSend ((clearTimeout (noResponse s1) s1)
        \<lparr>console := c, fired := fired (clearTimeout (noResponse s1) s1) @ [(f, resp)]\<rparr>))
           = handlers (clearTimeout (noResponse s1) s1)"
      by (rule handlers_completion_writable) (simp_all add: nc n f w)
    then show ?thesis using r h by (simp add: fc)
  qed (simp_all add: h)
qed

lemma writable_handleFrame [simp]: "writable (stateOf (handleFrame s data)) = writable s"
proof -
  obtain s1 where
    s1: "s1 = s \<or> (\<exists>p. s1 = s\<lparr>pushes := p\<rparr>)" and
    out: "handleFrame s data = Inr s1 \<or>
       (\<exists>e c. handleFrame s data = Inl (e, (clearTimeout (noResponse s1) s1)\<lparr>console := c\<rparr>)) \<or>
       (\<exists>e. handleFrame s data = Inl (e, clearTimeout (noResponse s1) s1)) \<or>
       (\<exists>f resp c. nextCb s = Some f \<and> handleFrame s data =
          Inr (onReadyToSend ((clearTimeout (noResponse s1) s1)
                 \<lparr>console := c, fired := fired s1 @ [(f, resp)]\<rparr>)))"
    by (rule handleFrame_cases)
  from s1 have w: "writable s1 = writable s" by (elim disjE exE) simp_all
  from out show ?thesis by (elim disjE exE conjE) (simp_all add: w)
qed

subsection \<open>Steps\<close>

text \<open>The state after an event, whether the event's code returned or threw.\<close>

lemma onData_state:
  "stateOf (onData s d) = s\<lparr>recvBuffer := recvBuffer s @ d\<rparr> \<or>
   stateOf (onData s d) = stateOf (handleFrame (s\<lparr>recvBuffer := []\<rparr>) (recvBuffer s @ d))"
  by (simp add: onData_def)

lemma pending_unique:
  assumes "singleFlight s" "timers s h \<noteq> None" "timers s k \<noteq> None"
  shows "k = h"
proof -
  from assms(1,2) have "noResponse s = Some h" by (simp add: singleFlight_def)
  moreover from assms(1,3) have "noResponse s = Some k" by (simp add: singleFlight_def)
  ultimately show ?thesis by simp
qed

lemma singleFlight_step: "singleFlight s \<Longrightarrow> singleFlight (stateOf (step s e))"
proof (cases e)
  case (Submit cmd rx c)
  assume sf: "singleFlight s"
  show ?thesis
  proof (cases c)
    case (JSFunction f)
    show ?thesis
    proof (cases "readyToSend s")
      case True
      with sf have "singleFlight (send s cmd rx f)"
        by (intro singleFlight_send) (auto simp: singleFlight_def)
      with True Submit JSFunction show ?thesis by (simp add: reqToSend_def)
    next
      case False
      with sf Submit JSFunction show ?thesis by (auto simp: reqToSend_def singleFlight_def)
    qed
  next
    case (NotAFunction v)
    with sf Submit show ?thesis by (simp add: reqToSend_def)
  qed
next
  case (Data d)
  assume sf: "singleFlight s"
  then have "singleFlight (stateOf (handleFrame (s\<lparr>recvBuffer := []\<rparr>) (recvBuffer s @ d)))"
    by (intro singleFlight_handleFrame) simp
  with sf Data onData_state [of s d] show ?thesis by auto
next
  case (NoResponse h)
  assume sf: "singleFlight s"
  show ?thesis
  proof (cases "timers s h")
    case None
    with sf NoResponse show ?thesis by (simp add: onNoResponse_def)
  next
    case (Some d)
    have "singleFlight (onReadyToSend (s\<lparr>timers := (timers s)(h := None)\<rparr>))"
    proof (rule singleFlight_onReadyToSend)
      show "\<forall>k. timers (s\<lparr>timers := (timers s)(h := None)\<rparr>) k = None"
        using pending_unique [OF sf, of h] Some by fastforce
      show "readyToSend (s\<lparr>timers := (timers s)(h := None)\<rparr>) \<longrightarrow>
        sendBuffer (s\<lparr>timers := (timers s)(h := None)\<rparr>) = []"
        using sf by (simp add: singleFlight_def)
    qed
    with Some NoResponse show ?thesis by (simp add: onNoResponse_def)
  qed
next
  case (SocketState st)
  assume "singleFlight s"
  with SocketState show ?thesis by simp
qed

lemma submitted_Cons: "submitted (e # es) = submitted [e] @ submitted es"
  by (cases "(e # es)" rule: submitted.cases) simp_all

lemma handlers_enqueue:
  "handlers (s\<lparr>sendBuffer := sendBuffer s @ [\<lparr>command = cmd, regex = rx, cb = f\<rparr>]\<rparr>)
     = handlers s @ [f]"
  by (simp add: handlers_def completed_def inFlight_def waiting_def)

lemma handlers_idle:
  "singleFlight s \<Longrightarrow> readyToSend s \<Longrightarrow> handlers s = completed s \<and> waiting s = [] \<and> nextCb s = None"
  by (simp add: singleFlight_def handlers_def inFlight_def waiting_def)

lemma handlers_send_writable:
  "writable s \<Longrightarrow> nextCb s = None \<Longrightarrow> handlers (send s cmd rx f) = completed s @ f # waiting s"
  by (simp add: send_writable handlers_def completed_def inFlight_def waiting_def)

lemma handlers_step:
  assumes sf: "singleFlight s"
  shows "subseq (handlers (stateOf (step s e))) (handlers s @ submitted [e])"
proof (cases e)
  case (Submit cmd rx c)
  show ?thesis
  proof (cases c)
    case (JSFunction f)
    show ?thesis
    proof (cases "readyToSend s")
      case True
      from handlers_idle [OF sf True] handlers_send [of s cmd rx f]
      have "subseq (handlers (send s cmd rx f)) (handlers s @ [f])" by simp
      with True Submit JSFunction show ?thesis by (simp add: reqToSend_def)
    next
      case False
      with Submit JSFunction show ?thesis by (simp add: reqToSend_def handlers_enqueue)
    qed
  next
    case (NotAFunction v)
    with Submit show ?thesis by (simp add: reqToSend_def)
  qed
next
  case (Data d)
  have "subseq (handlers (stateOf (handleFrame (s\<lparr>recvBuffer := []\<rparr>) (recvBuffer s @ d))))
     (handlers (s\<lparr>recvBuffer := []\<rparr>))"
    by (rule handlers_handleFrame)
  with Data onData_state [of s d] show ?thesis by auto
next
  case (NoResponse h)
  have "subseq (completed s @ waiting s) (handlers s)"
    by (simp add: handlers_def subseq_append' subseq_drop_many)
  moreover have "subseq (handlers (onReadyToSend (s\<lparr>timers := (timers s)(h := None)\<rparr>)))
     (completed s @ waiting s)"
    using handlers_onReadyToSend [of "s\<lparr>timers := (timers s)(h := None)\<rparr>"]
    by (simp add: completed_def waiting_def)
  ultimately have "subseq (handlers (onReadyToSend (s\<lparr>timers := (timers s)(h := None)\<rparr>)))
     (handlers s)"
    by (rule subseq_order.trans [rotated])
  with NoResponse show ?thesis by (simp add: onNoResponse_def)
next
  case (SocketState st)
  then show ?thesis by simp
qed

lemma handlers_step_undisturbed:
  assumes sf: "singleFlight s" and w: "writable s" and u: "undisturbed e"
  shows "handlers (stateOf (step s e)) = handlers s @ submitted [e] \<and> writable (stateOf (step s e))"
proof (cases e)
  case (Submit cmd rx c)
  show ?thesis
  proof (cases c)
    case (JSFunction f)
    show ?thesis
    proof (cases "readyToSend s")
      case True
      from handlers_idle [OF sf True] handlers_send_writable [OF w, of cmd rx f]
      have "handlers (send s cmd rx f) = handlers s @ [f]" by simp
      with True Submit JSFunction w show ?thesis by (simp add: reqToSend_def)
    next
      case False
      with Submit JSFunction w show ?thesis by (simp add: reqToSend_def handlers_enqueue)
    qed
  next
    case (NotAFunction v)
    with Submit w show ?thesis by (simp add: reqToSend_def)
  qed
next
  case (Data d)
  have "handlers (stateOf (handleFrame (s\<lparr>recvBuffer := []\<rparr>) (recvBuffer s @ d)))
     = handlers (s\<lparr>recvBuffer := []\<rparr>)"
    by (rule handlers_handleFrame_writable) (simp add: w)
  moreover have "writable (stateOf (handleFrame (s\<lparr>recvBuffer := []\<rparr>) (recvBuffer s @ d)))"
    by (simp add: w)
  ultimately show ?thesis using Data onData_state [of s d] w by auto
next
  case (NoResponse h)
  with u show ?thesis by simp
next
  case (SocketState st)
  with u show ?thesis by (auto simp: writable_def)
qed

lemma run_state:
  "stateOf (run s (e # es)) = stateOf (run (stateOf (step s e)) es) \<or>
   (stateOf (run s (e # es)) = stateOf (step s e) \<and> (\<exists>x. run s (e # es) = Inl x))"
  by (cases "step s e"; cases e) (auto split: prod.splits)

lemma run_Inr:
  "run s (e # es) = Inr s' \<Longrightarrow> run (stateOf (step s e)) es = Inr s'"
  by (cases "step s e"; cases e) (auto split: prod.splits)

lemma run_invariant:
  "singleFlight s \<Longrightarrow>
   singleFlight (stateOf (run s es)) \<and>
   subseq (handlers (stateOf (run s es))) (handlers s @ submitted es)"
proof (induction es arbitrary: s)
  case Nil
  then show ?case by simp
next
  case (Cons e es)
  let ?s1 = "stateOf (step s e)"
  from Cons.prems have sf1: "singleFlight ?s1" by (rule singleFlight_step)
  from Cons.prems have h1: "subseq (handlers ?s1) (handlers s @ submitted [e])"
    by (rule handlers_step)
  from Cons.IH [OF sf1] have IH1: "singleFlight (stateOf (run ?s1 es))"
    and IH2: "subseq (handlers (stateOf (run ?s1 es))) (handlers ?s1 @ submitted es)" by simp_all
  have "subseq (handlers ?s1 @ submitted es) ((handlers s @ submitted [e]) @ submitted es)"
    using h1 by (intro list_emb_append_mono) simp_all
  with IH2 have a: "subseq (handlers (stateOf (run ?s1 es))) (handlers s @ submitted (e # es))"
    using submitted_Cons [of e es] by (metis append.assoc subseq_order.trans)
  have b: "subseq (handlers ?s1) (handlers s @ submitted (e # es))"
    using subseq_rev_drop_many [OF h1, of "submitted es"] submitted_Cons [of e es] by simp
  from run_state [of s e es] sf1 IH1 a b show ?case by (elim disjE conjE) simp_all
qed

lemma run_undisturbed:
  "singleFlight s \<Longrightarrow> writable s \<Longrightarrow> \<forall>e \<in> set es. undisturbed e \<Longrightarrow> run s es = Inr s' \<Longrightarrow>
   handlers s' = handlers s @ submitted es"
proof (induction es arbitrary: s)
  case Nil
  then show ?case by simp
next
  case (Cons e es)
  let ?s1 = "stateOf (step s e)"
  from Cons.prems have sf1: "singleFlight ?s1" by (intro singleFlight_step)
  from Cons.prems have h1: "handlers ?s1 = handlers s @ submitted [e]" and w1: "writable ?s1"
    using handlers_step_undisturbed [of s e] by simp_all
  from Cons.prems have r: "run ?s1 es = Inr s'" by (intro run_Inr)
  from Cons.prems have "\<forall>e \<in> set es. undisturbed e" by simp
  from Cons.IH [OF sf1 w1 this r] h1 submitted_Cons [of e es] show ?case by simp
qed

lemma subseq_distinct: "subseq xs ys \<Longrightarrow> distinct ys \<Longrightarrow> distinct xs"
  using subseqs_distinctD [of xs ys] by simp

lemma sequencer_send:
  assumes "sequencer a = sequencer b" "readyState a = readyState b"
    "noResponseTimeout a = noResponseTimeout b"
  shows "sequencer (send a cmd rx f) = sequencer (send b cmd rx f)"
proof (cases "writable a")
  case True
  with assms(2) have "writable b" by (simp add: writable_def)
  with True assms show ?thesis by (simp add: send_writable sequencer_def)
next
  case False
  with assms(2) have "\<not> writable b" by (simp add: writable_def)
  with False assms show ?thesis by (simp add: send_not_writable sequencer_def)
qed

lemma sequencer_onReadyToSend:
  assumes "sequencer a = sequencer b" "readyState a = readyState b"
    "noResponseTimeout a = noResponseTimeout b"
  shows "sequencer (onReadyToSend a) = sequencer (onReadyToSend b)"
proof (cases "sendBuffer a")
  case Nil
  with assms show ?thesis by (simp add: onReadyToSend_def sequencer_def)
next
  case (Cons q qs)
  with assms(1) have b: "sendBuffer b = q # qs" by (simp add: sequencer_def)
  have "sequencer (send (a\<lparr>nextResponse := None, nextCb := None, sendBuffer := qs\<rparr>)
           (command q) (regex q) (cb q))
      = sequencer (send (b\<lparr>nextResponse := None, nextCb := None, sendBuffer := qs\<rparr>)
           (command q) (regex q) (cb q))"
    using assms by (intro sequencer_send) (simp_all add: sequencer_def)
  with Cons b show ?thesis by (simp add: onReadyToSend_def)
qed

lemma fired_send [simp]: "fired (send s cmd rx f) = fired s"
  by (cases "writable s") (simp_all add: send_writable send_not_writable)

lemma fired_onReadyToSend [simp]: "fired (onReadyToSend s) = fired s"
  by (cases "sendBuffer s") (simp_all add: onReadyToSend_def)

lemma completion_like_timeout:
  assumes "noResponse s = Some h" and "handleFrame s data = Inr s'" and "fired s' \<noteq> fired s"
  shows "sequencer s' = sequencer (onReadyToSend (s\<lparr>timers := (timers s)(h := None)\<rparr>))"
proof -
  obtain s1 where
    s1: "s1 = s \<or> (\<exists>p. s1 = s\<lparr>pushes := p\<rparr>)" and
    out: "handleFrame s data = Inr s1 \<or>
       (\<exists>e c. handleFrame s data = Inl (e, (clearTimeout (noResponse s1) s1)\<lparr>console := c\<rparr>)) \<or>
       (\<exists>e. handleFrame s data = Inl (e, clearTimeout (noResponse s1) s1)) \<or>
       (\<exists>f resp c. nextCb s = Some f \<and> handleFrame s data =
          Inr (onReadyToSend ((clearTimeout (noResponse s1) s1)
                 \<lparr>console := c, fired := fired s1 @ [(f, resp)]\<rparr>)))"
    by (rule handleFrame_cases)
  from s1 have f1: "fired s1 = fired s" by (elim disjE exE) simp_all
  from s1 assms(1) have sq: "\<And>c fs. sequencer ((clearTimeout (noResponse s1) s1)\<lparr>console := c, fired := fs\<rparr>)
      = sequencer (s\<lparr>timers := (timers s)(h := None)\<rparr>)"
    by (elim disjE exE) (simp_all add: sequencer_def clearTimeout_def)
  from s1 have rs: "\<And>c fs. readyState ((clearTimeout (noResponse s1) s1)\<lparr>console := c, fired := fs\<rparr>) = readyState s"
    "\<And>c fs. noResponseTimeout ((clearTimeout (noResponse s1) s1)\<lparr>console := c, fired := fs\<rparr>) = noResponseTimeout s"
    by (elim disjE exE; simp add: clearTimeout_def split: option.splits)+
  from out show ?thesis
  proof (elim disjE exE conjE)
    assume "handleFrame s data = Inr s1"
    with assms(2,3) f1 show ?thesis by simp
  next
    fix f resp c
    assume "handleFrame s data = Inr (onReadyToSend ((clearTimeout (noResponse s1) s1)
                 \<lparr>console := c, fired := fired s1 @ [(f, resp)]\<rparr>))"
    with assms(2) have "s' = onReadyToSend ((clearTimeout (noResponse s1) s1)
                 \<lparr>console := c, fired := fired s1 @ [(f, resp)]\<rparr>)" by simp
    then show ?thesis
      using sequencer_onReadyToSend [OF sq [where c = c and fs = "fired s1 @ [(f, resp)]"]] rs
      by simp
  qed (use assms(2) in simp_all)
qed

lemma subseq_set: "subseq xs ys \<Longrightarrow> set xs \<subseteq> set ys"
  by (auto elim: list_emb_set)

lemma onReadyToSend_empty:
  "sendBuffer s = [] \<Longrightarrow> onReadyToSend s = s\<lparr>nextResponse := None, nextCb := None, readyToSend := True\<rparr>"
  by (simp add: onReadyToSend_def)

lemma onReadyToSend_dispatch:
  "sendBuffer s = q # qs \<Longrightarrow>
   onReadyToSend s =
     send (s\<lparr>nextResponse := None, nextCb := None, sendBuffer := qs\<rparr>) (command q) (regex q) (cb q)"
  by (simp add: onReadyToSend_def)

lemma never_called_later:
  assumes "singleFlight s" and "f \<notin> set (handlers s)" and "f \<notin> set (submitted es)"
  shows "f \<notin> set (completed (stateOf (run s es)))"
proof -
  from run_invariant [OF assms(1), of es]
  have "set (handlers (stateOf (run s es))) \<subseteq> set (handlers s @ submitted es)"
    by (intro subseq_set) simp
  with assms(2,3) have "f \<notin> set (handlers (stateOf (run s es)))" by auto
  then show ?thesis by (simp add: handlers_def)
qed

lemma noResponseTimeout_send [simp]: "noResponseTimeout (send s cmd rx f) = noResponseTimeout s"
  by (cases "writable s") (simp_all add: send_writable send_not_writable)

lemma noResponseTimeout_onReadyToSend [simp]:
  "noResponseTimeout (onReadyToSend s) = noResponseTimeout s"
  by (cases "sendBuffer s") (simp_all add: onReadyToSend_def)

lemma noResponseTimeout_clearTimeout [simp]:
  "noResponseTimeout (clearTimeout h s) = noResponseTimeout s"
  by (simp add: clearTimeout_def split: option.splits)

lemma noResponseTimeout_handleFrame [simp]:
  "noResponseTimeout (stateOf (handleFrame s data)) = noResponseTimeout s"
proof -
  obtain s1 where
    s1: "s1 = s \<or> (\<exists>p. s1 = s\<lparr>pushes := p\<rparr>)" and
    out: "handleFrame s data = Inr s1 \<or>
       (\<exists>e c. handleFrame s data = Inl (e, (clearTimeout (noResponse s1) s1)\<lparr>console := c\<rparr>)) \<or>
       (\<exists>e. handleFrame s data = Inl (e, clearTimeout (noResponse s1) s1)) \<or>
       (\<exists>f resp c. nextCb s = Some f \<and> handleFrame s data =
          Inr (onReadyToSend ((clearTimeout (noResponse s1) s1)
                 \<lparr>console := c, fired := fired s1 @ [(f, resp)]\<rparr>)))"
    by (rule handleFrame_cases)
  from s1 have w: "noResponseTimeout s1 = noResponseTimeout s" by (elim disjE exE) simp_all
  from out show ?thesis by (elim disjE exE conjE) (simp_all add: w)
qed

lemma noResponseTimeout_step [simp]:
  "noResponseTimeout (stateOf (step s e)) = noResponseTimeout s"
proof (cases e)
  case (Submit cmd rx c)
  then show ?thesis by (cases c) (simp_all add: reqToSend_def)
next
  case (Data d)
  with onData_state [of s d] show ?thesis by auto
next
  case (NoResponse h)
  then show ?thesis by (simp add: onNoResponse_def)
next
  case (SocketState st)
  then show ?thesis by simp
qed

lemma noResponseTimeout_run: "noResponseTimeout (stateOf (run s es)) = noResponseTimeout s"
proof (induction es arbitrary: s)
  case Nil
  show ?case by simp
next
  case (Cons e es)
  from run_state [of s e es] Cons [of "stateOf (step s e)"] show ?case
    by (elim disjE conjE) simp_all
qed

lemma noResponseTimeout_2000: "noResponseTimeout (stateOf (run (constructor dbg) es)) = 2000"
  by (simp add: noResponseTimeout_run) (simp add: constructor_def)

section \<open>Push/response disambiguation\<close>

lemma findSplit_None: "findSplit None frame = -1"
  by (simp add: findSplit_def)

lemma findSplit_nomatch: "rx frame = None \<Longrightarrow> findSplit (Some rx) frame = -1"
  by (simp add: findSplit_def search_def)

lemma findSplit_match: "rx frame = Some m \<Longrightarrow> findSplit (Some rx) frame = int (index m)"
  by (simp add: findSplit_def search_def)

lemma pushes_send [simp]: "pushes (send s cmd rx f) = pushes s"
  by (cases "writable s") (simp_all add: send_writable send_not_writable)

lemma pushes_onReadyToSend [simp]: "pushes (onReadyToSend s) = pushes s"
  by (cases "sendBuffer s") (simp_all add: onReadyToSend_def)

lemma pushes_clearTimeout [simp]: "pushes (clearTimeout h s) = pushes s"
  by (simp add: clearTimeout_def split: option.splits)

lemma fired_clearTimeout [simp]: "fired (clearTimeout h s) = fired s"
  by (simp add: clearTimeout_def split: option.splits)

lemma nextCb_clearTimeout [simp]: "nextCb (clearTimeout h s) = nextCb s"
  by (simp add: clearTimeout_def split: option.splits)

lemma nextResponse_clearTimeout [simp]: "nextResponse (clearTimeout h s) = nextResponse s"
  by (simp add: clearTimeout_def split: option.splits)

lemma handleFrame_push:
  assumes "classify (nextResponse s) frame = (Some frame, None)" and "frame \<noteq> []"
  shows "handleFrame s frame = Inr (s\<lparr>pushes := pushes s @ [parseMultiple frame]\<rparr>)"
  using assms by (simp add: handleFrame_def emitPush_def)

lemma handleFrame_response:
  assumes "classify (nextResponse s) frame = (p, Some r)" and "r \<noteq> []"
  shows "pushes (stateOf (handleFrame s frame)) =
           (case p of None \<Rightarrow> pushes s
            | Some x \<Rightarrow> if x \<noteq> [] then pushes s @ [parseMultiple x] else pushes s) \<and>
         (\<forall>f resp out. nextCb s = Some f \<and> parseResponse r (nextResponse s) = Inr (resp, out) \<longrightarrow>
            fired (stateOf (handleFrame s frame)) = fired s @ [(f, resp)])"
  using assms
  by (auto simp: handleFrame_def emitPush_def Let_def split: option.splits sum.splits)

text \<open>
  C1. A complete frame is split by the offset of the leftmost match of the pattern of the
  command in flight. Without a command in flight, or without a match, the whole frame is the
  push segment and there is no response segment: the frame is parsed in the multi-record form
  and emitted as one push event, and nothing else happens. With a match at offset 0 the whole
  frame is the response segment and there is no push segment: no push event is emitted. With
  a match at an offset \<open>k > 0\<close> the first \<open>k\<close> characters are the push segment, emitted as a
  push event, and the rest is the response segment. The handler of the command in flight
  receives the parse of the response segment.
\<close>

theorem classify_split:
  "(nextResponse s = None \<longrightarrow> classify (nextResponse s) frame = (Some frame, None)) \<and>
   (nextResponse s = Some rx \<and> rx frame = None \<longrightarrow>
      classify (nextResponse s) frame = (Some frame, None)) \<and>
   (nextResponse s = Some rx \<and> rx frame = Some m \<and> index m = 0 \<longrightarrow>
      classify (nextResponse s) frame = (None, Some frame)) \<and>
   (nextResponse s = Some rx \<and> rx frame = Some m \<and> 0 < index m \<longrightarrow>
      classify (nextResponse s) frame
        = (Some (take (index m) frame), Some (drop (index m) frame))) \<and>
   (endsWithCR frame \<and> (nextResponse s = None \<or> nextResponse s = Some rx \<and> rx frame = None)
      \<longrightarrow> handleFrame s frame = Inr (s\<lparr>pushes := pushes s @ [parseMultiple frame]\<rparr>)) \<and>
   (endsWithCR frame \<and> nextResponse s = Some rx \<and> rx frame = Some m \<and> index m = 0 \<longrightarrow>
      pushes (stateOf (handleFrame s frame)) = pushes s \<and>
      (\<forall>f resp out. nextCb s = Some f \<and> parseResponse frame (nextResponse s) = Inr (resp, out)
         \<longrightarrow> fired (stateOf (handleFrame s frame)) = fired s @ [(f, resp)])) \<and>
   (endsWithCR frame \<and> nextResponse s = Some rx \<and> rx frame = Some m \<and> 0 < index m \<and>
    index m < length frame \<longrightarrow>
      pushes (stateOf (handleFrame s frame))
        = pushes s @ [parseMultiple (take (index m) frame)] \<and>
      (\<forall>f resp out. nextCb s = Some f \<and>
           parseResponse (drop (index m) frame) (nextResponse s) = Inr (resp, out)
         \<longrightarrow> fired (stateOf (handleFrame s frame)) = fired s @ [(f, resp)]))"
proof -
  have ne: "endsWithCR frame \<Longrightarrow> frame \<noteq> []"
    by (auto simp: endsWithCR_def)
  have 1: "nextResponse s = None \<longrightarrow> classify (nextResponse s) frame = (Some frame, None)"
    by (simp add: classify_def findSplit_None)
  have 2: "nextResponse s = Some rx \<and> rx frame = None \<longrightarrow>
      classify (nextResponse s) frame = (Some frame, None)"
    by (simp add: classify_def findSplit_nomatch)
  have 3: "nextResponse s = Some rx \<and> rx frame = Some m \<and> index m = 0 \<longrightarrow>
      classify (nextResponse s) frame = (None, Some frame)"
    by (simp add: classify_def findSplit_match)
  have 4: "nextResponse s = Some rx \<and> rx frame = Some m \<and> 0 < index m \<longrightarrow>
      classify (nextResponse s) frame
        = (Some (take (index m) frame), Some (drop (index m) frame))"
    by (simp add: classify_def findSplit_match)
  have 5: "endsWithCR frame \<and> (nextResponse s = None \<or> nextResponse s = Some rx \<and> rx frame = None)
      \<longrightarrow> handleFrame s frame = Inr (s\<lparr>pushes := pushes s @ [parseMultiple frame]\<rparr>)"
    using 1 2 ne by (auto intro: handleFrame_push)
  have 6: "endsWithCR frame \<and> nextResponse s = Some rx \<and> rx frame = Some m \<and> index m = 0 \<longrightarrow>
      pushes (stateOf (handleFrame s frame)) = pushes s \<and>
      (\<forall>f resp out. nextCb s = Some f \<and> parseResponse frame (nextResponse s) = Inr (resp, out)
         \<longrightarrow> fired (stateOf (handleFrame s frame)) = fired s @ [(f, resp)])"
  proof (intro impI, elim conjE)
    assume a: "endsWithCR frame" "nextResponse s = Some rx" "rx frame = Some m" "index m = 0"
    with 3 have c: "classify (nextResponse s) frame = (None, Some frame)" by simp
    from handleFrame_response [OF c ne [OF a(1)]]
    show "pushes (stateOf (handleFrame s frame)) = pushes s \<and>
      (\<forall>f resp out. nextCb s = Some f \<and> parseResponse frame (nextResponse s) = Inr (resp, out)
         \<longrightarrow> fired (stateOf (handleFrame s frame)) = fired s @ [(f, resp)])"
      by simp
  qed
  have 7: "endsWithCR frame \<and> nextResponse s = Some rx \<and> rx frame = Some m \<and> 0 < index m \<and>
    index m < length frame \<longrightarrow>
      pushes (stateOf (handleFrame s frame))
        = pushes s @ [parseMultiple (take (index m) frame)] \<and>
      (\<forall>f resp out. nextCb s = Some f \<and>
           parseResponse (drop (index m) frame) (nextResponse s) = Inr (resp, out)
         \<longrightarrow> fired (stateOf (handleFrame s frame)) = fired s @ [(f, resp)])"
  proof (intro impI, elim conjE)
    assume a: "endsWithCR frame" "nextResponse s = Some rx" "rx frame = Some m" "0 < index m"
      "index m < length frame"
    with 4 have c: "classify (nextResponse s) frame
        = (Some (take (index m) frame), Some (drop (index m) frame))" by simp
    from a have d: "drop (index m) frame \<noteq> []" by simp
    from a have t: "take (index m) frame \<noteq> []" by auto
    from handleFrame_response [OF c d] t
    show "pushes (stateOf (handleFrame s frame))
        = pushes s @ [parseMultiple (take (index m) frame)] \<and>
      (\<forall>f resp out. nextCb s = Some f \<and>
           parseResponse (drop (index m) frame) (nextResponse s) = Inr (resp, out)
         \<longrightarrow> fired (stateOf (handleFrame s frame)) = fired s @ [(f, resp)])"
      by simp
  qed
  from 1 2 3 4 5 6 7 show ?thesis by (intro conjI)
qed

lemma search_push_then_ack:
  "regexPattern ackNakRegex (''#00001=00002'' @ [CR] @ ''ACK'' @ [CR])
     = Some \<lparr>index = 13, groups = Some [''ack'' \<mapsto> ''ACK'']\<rparr>"
  by (simp add: regexPattern_def ackNakRegex_def oneChar_def isSpace_def)

lemma search_ack:
  "regexPattern ackNakRegex (''ACK'' @ [CR]) = Some \<lparr>index = 0, groups = Some [''ack'' \<mapsto> ''ACK'']\<rparr>"
  by (simp add: regexPattern_def ackNakRegex_def oneChar_def isSpace_def)

lemma search_push_only:
  "regexPattern ackNakRegex (''#00001=00002'' @ [CR]) = None"
  by (simp add: regexPattern_def ackNakRegex_def oneChar_def isSpace_def)

lemma nextResponse_awaitingAck: "nextResponse awaitingAck = Some (regexPattern ackNakRegex)"
  by (simp add: awaitingAck_def send_def connected_def constructor_def setTimeout_def)

lemma nextResponse_connected: "nextResponse connected = None"
  by (simp add: connected_def constructor_def)

theorem classify_split_witness:
  "classify (nextResponse connected) (''#00001=00002'' @ [CR])
     = (Some (''#00001=00002'' @ [CR]), None) \<and>
   classify (nextResponse awaitingAck) (''#00001=00002'' @ [CR])
     = (Some (''#00001=00002'' @ [CR]), None) \<and>
   classify (nextResponse awaitingAck) (''ACK'' @ [CR]) = (None, Some (''ACK'' @ [CR])) \<and>
   classify (nextResponse awaitingAck) (''#00001=00002'' @ [CR] @ ''ACK'' @ [CR])
     = (Some (''#00001=00002'' @ [CR]), Some (''ACK'' @ [CR])) \<and>
   pushes (stateOf (handleFrame awaitingAck (''#00001=00002'' @ [CR] @ ''ACK'' @ [CR])))
     = pushes awaitingAck @ [parseMultiple (''#00001=00002'' @ [CR])] \<and>
   pushes (stateOf (handleFrame awaitingAck (''ACK'' @ [CR]))) = pushes awaitingAck \<and>
   fired (stateOf (handleFrame awaitingAck (''#00001=00002'' @ [CR] @ ''ACK'' @ [CR])))
     = [(0, Boolean True)]"
proof -
  have ev: "fired (stateOf (handleFrame awaitingAck (''#00001=00002'' @ [CR] @ ''ACK'' @ [CR])))
     = [(0, Boolean True)]"
    by code_simp
  have e1: "endsWithCR (''#00001=00002'' @ [CR] @ ''ACK'' @ [CR])" "endsWithCR (''ACK'' @ [CR])"
    by (simp_all add: endsWithCR_def)
  show ?thesis
    using classify_split [where s = connected and frame = "''#00001=00002'' @ [CR]"]
      classify_split [where s = awaitingAck and rx = "regexPattern ackNakRegex"
        and frame = "''#00001=00002'' @ [CR]"]
      classify_split [where s = awaitingAck and rx = "regexPattern ackNakRegex"
        and frame = "''ACK'' @ [CR]"
        and m = "\<lparr>index = 0, groups = Some [''ack'' \<mapsto> ''ACK'']\<rparr>"]
      classify_split [where s = awaitingAck and rx = "regexPattern ackNakRegex"
        and frame = "''#00001=00002'' @ [CR] @ ''ACK'' @ [CR]"
        and m = "\<lparr>index = 13, groups = Some [''ack'' \<mapsto> ''ACK'']\<rparr>"]
      search_push_then_ack search_ack search_push_only nextResponse_awaitingAck
      nextResponse_connected ev e1
    by simp
qed

section \<open>Frame assembly\<close>

lemma endsWithCR_append: "endsWithCR c \<Longrightarrow> endsWithCR (b @ c)"
  by (cases "rev c") (simp_all add: endsWithCR_def)

lemma deliver_fragments:
  "\<forall>c \<in> set cs. \<not> endsWithCR c \<Longrightarrow>
   deliver s cs = Inr (s\<lparr>recvBuffer := recvBuffer s @ concat cs\<rparr>)"
  by (induction cs arbitrary: s) (simp_all add: onData_def)

lemma deliver_append:
  "deliver s (cs @ ds) = (case deliver s cs of Inl e \<Rightarrow> Inl e | Inr s' \<Rightarrow> deliver s' ds)"
  by (induction cs arbitrary: s) (simp_all split: sum.splits)

text \<open>
  C4. Chunks that do not end with the terminator are appended to the receive buffer and
  nothing else happens. The chunk that ends with the terminator completes the frame: the
  frame handler runs on the buffer followed by that chunk, with the buffer emptied. The
  outcome (state reached, or exception) is that of the whole text arriving as one chunk.
\<close>

theorem fragmentation:
  assumes "\<forall>x \<in> set cs. \<not> endsWithCR x" and "endsWithCR c"
  shows "deliver s cs = Inr (s\<lparr>recvBuffer := recvBuffer s @ concat cs\<rparr>) \<and>
         deliver s (cs @ [c])
           = handleFrame (s\<lparr>recvBuffer := []\<rparr>) (recvBuffer s @ concat cs @ c) \<and>
         deliver s (cs @ [c]) = onData s (concat cs @ c) \<and>
         (\<forall>s'. deliver s (cs @ [c]) = Inr s' \<longrightarrow> recvBuffer s' = [])"
proof -
  have frag: "deliver s cs = Inr (s\<lparr>recvBuffer := recvBuffer s @ concat cs\<rparr>)"
    using assms(1) by (rule deliver_fragments)
  have last: "deliver s (cs @ [c])
      = handleFrame (s\<lparr>recvBuffer := []\<rparr>) (recvBuffer s @ concat cs @ c)"
    using assms(2) by (simp add: deliver_append frag onData_def split: sum.splits)
  have whole: "onData s (concat cs @ c)
      = handleFrame (s\<lparr>recvBuffer := []\<rparr>) (recvBuffer s @ concat cs @ c)"
    using endsWithCR_append [OF assms(2), of "concat cs"] by (simp add: onData_def)
  have buf: "\<forall>s'. deliver s (cs @ [c]) = Inr s' \<longrightarrow> recvBuffer s' = []"
    using recvBuffer_handleFrame [of "s\<lparr>recvBuffer := []\<rparr>"] by (simp add: last)
  from frag last whole buf show ?thesis by simp
qed

theorem fragmentation_witness:
  "deliver awaitingAck [''#00001=0'', ''0002'' @ [CR] @ ''AC'']
     = Inr (awaitingAck\<lparr>recvBuffer :=
         recvBuffer awaitingAck @ concat [''#00001=0'', ''0002'' @ [CR] @ ''AC'']\<rparr>) \<and>
   deliver awaitingAck ([''#00001=0'', ''0002'' @ [CR] @ ''AC''] @ [''K'' @ [CR]])
     = onData awaitingAck (concat [''#00001=0'', ''0002'' @ [CR] @ ''AC''] @ ''K'' @ [CR]) \<and>
   (case onData awaitingAck (concat [''#00001=0'', ''0002'' @ [CR] @ ''AC''] @ ''K'' @ [CR]) of
      Inl e \<Rightarrow> False
    | Inr s' \<Rightarrow> fired s' = [(0, Boolean True)] \<and> pushes s' = [[(1, 2)]] \<and> recvBuffer s' = [])"
proof -
  have h1: "\<forall>x \<in> set [''#00001=0'', ''0002'' @ [CR] @ ''AC'']. \<not> endsWithCR x"
    by (simp add: endsWithCR_def)
  have h2: "endsWithCR (''K'' @ [CR])"
    by (simp add: endsWithCR_def)
  have ev: "(case onData awaitingAck
                 (concat [''#00001=0'', ''0002'' @ [CR] @ ''AC''] @ ''K'' @ [CR]) of
      Inl e \<Rightarrow> False
    | Inr s' \<Rightarrow> fired s' = [(0, Boolean True)] \<and> pushes s' = [[(1, 2)]] \<and> recvBuffer s' = [])"
    by code_simp
  from fragmentation [OF h1 h2, of awaitingAck] ev show ?thesis by blast
qed

section \<open>Block replies\<close>

lemma indexOfCR_header: "CR \<notin> set hdr \<Longrightarrow> indexOfCR (hdr @ CR # rest) = int (length hdr)"
  by (induction hdr) (auto simp: Let_def)

lemma parseMultiple_skip:
  "CHR ''#'' \<notin> set pre \<Longrightarrow> parseMultiple (pre @ rest) = parseMultiple rest"
  by (induction pre) (auto simp: matchRecord_def)

lemma matchRecord_record:
  assumes "length i = 5" "list_all isDigit i" "length v = 5" "list_all isDigit v"
  shows "matchRecord (CHR ''#'' # i @ CHR ''='' # v @ rest) = Some (i, v)"
  using assms by (simp add: matchRecord_def nth_append)

lemma parseMultiple_record:
  assumes "length i = 5" "list_all isDigit i" "length v = 5" "list_all isDigit v"
  shows "parseMultiple (CHR ''#'' # i @ CHR ''='' # v @ rest)
           = (Number i, Number v) # parseMultiple rest"
  using assms by (simp add: matchRecord_record)

lemma parseMultiple_records:
  assumes "\<forall>(i, v, sep) \<in> set recs. length i = 5 \<and> list_all isDigit i \<and> length v = 5
             \<and> list_all isDigit v \<and> CHR ''#'' \<notin> set sep"
  shows "parseMultiple (concat (map (\<lambda>(i, v, sep). ''#'' @ i @ ''='' @ v @ sep) recs))
           = map (\<lambda>(i, v, sep). (Number i, Number v)) recs"
  using assms
proof (induction recs)
  case Nil
  then show ?case by simp
next
  case (Cons r recs)
  let ?rest = "concat (map (\<lambda>(i, v, sep). ''#'' @ i @ ''='' @ v @ sep) recs)"
  obtain i v sep where r: "r = (i, v, sep)" by (cases r)
  from Cons.prems r have ok: "length i = 5" "list_all isDigit i" "length v = 5"
      "list_all isDigit v"
    and sep: "CHR ''#'' \<notin> set sep" by simp_all
  from Cons have IH: "parseMultiple ?rest = map (\<lambda>(i, v, sep). (Number i, Number v)) recs"
    by simp
  have "parseMultiple (CHR ''#'' # i @ CHR ''='' # v @ (sep @ ?rest))
      = (Number i, Number v) # parseMultiple (sep @ ?rest)"
    using ok by (rule parseMultiple_record)
  then show ?case using r IH sep by (simp add: parseMultiple_skip)
qed

lemma classify_match_at_start:
  "nextResponse s = Some rx \<Longrightarrow> rx frame = Some m \<Longrightarrow> index m = 0 \<Longrightarrow>
   classify (nextResponse s) frame = (None, Some frame)"
  by (simp add: classify_def findSplit_match)

text \<open>
  C7. A response segment that starts with \<^verbatim>\<open>GSB3\<close>, whose header line \<open>hdr\<close> ends at the first
  terminator and is followed by \<open>K\<close> records \<^verbatim>\<open>#<5 digits>=<5 digits>\<close> (each followed by any
  text without \<^verbatim>\<open>#\<close>, such as the terminator): the text parsed is what follows the header
  line, and the result is the list of the \<open>K\<close> pairs (id, value), as numbers, in the order
  of the frame, whatever the pattern of the command in flight. When that pattern matches the
  frame at its start, the handler of the command in flight receives this list.
\<close>

theorem block_response_parse:
  assumes "take 4 hdr = ''GSB3''" and "CR \<notin> set hdr" and "CHR ''#'' \<notin> set pre"
    and "\<forall>(i, v, sep) \<in> set recs. length i = 5 \<and> list_all isDigit i \<and> length v = 5
             \<and> list_all isDigit v \<and> CHR ''#'' \<notin> set sep"
  shows "substring
           (hdr @ [CR] @ pre @ concat (map (\<lambda>(i, v, sep). ''#'' @ i @ ''='' @ v @ sep) recs))
           (indexOfCR
             (hdr @ [CR] @ pre @ concat (map (\<lambda>(i, v, sep). ''#'' @ i @ ''='' @ v @ sep) recs))
            + 1)
           = pre @ concat (map (\<lambda>(i, v, sep). ''#'' @ i @ ''='' @ v @ sep) recs) \<and>
         parseResponse
           (hdr @ [CR] @ pre @ concat (map (\<lambda>(i, v, sep). ''#'' @ i @ ''='' @ v @ sep) recs)) nr
           = Inr (Records (map (\<lambda>(i, v, sep). (Number i, Number v)) recs), []) \<and>
         length (map (\<lambda>(i, v, sep). (Number i, Number v)) recs) = length recs \<and>
         (\<forall>s rx m f. nextResponse s = Some rx \<and> nextCb s = Some f \<and> index m = 0 \<and>
            rx (hdr @ [CR] @ pre @ concat (map (\<lambda>(i, v, sep). ''#'' @ i @ ''='' @ v @ sep) recs))
              = Some m \<longrightarrow>
            fired (stateOf (handleFrame s
              (hdr @ [CR] @ pre @ concat (map (\<lambda>(i, v, sep). ''#'' @ i @ ''='' @ v @ sep) recs))))
              = fired s @ [(f, Records (map (\<lambda>(i, v, sep). (Number i, Number v)) recs))])"
proof -
  let ?body = "concat (map (\<lambda>(i, v, sep). ''#'' @ i @ ''='' @ v @ sep) recs)"
  let ?resp = "hdr @ [CR] @ pre @ ?body"
  let ?out = "map (\<lambda>(i, v, sep). (Number i, Number v)) recs"
  have len: "4 \<le> length hdr"
    using assms(1) by (cases "4 \<le> length hdr") auto
  have hd: "take 4 ?resp = ''GSB3''"
    using assms(1) len by simp
  have strip: "substring ?resp (indexOfCR ?resp + 1) = pre @ ?body"
    using indexOfCR_header [OF assms(2), of "pre @ ?body"]
    by (simp add: substring_def nat_add_distrib)
  have "parseMultiple (pre @ ?body) = ?out"
    using parseMultiple_records [OF assms(4)] parseMultiple_skip [OF assms(3)] by simp
  with hd strip have parse: "\<And>nr. parseResponse ?resp nr = Inr (Records ?out, [])"
    by (simp add: parseResponse_def)
  have ne: "?resp \<noteq> []" by simp
  have handler: "\<forall>s rx m f. nextResponse s = Some rx \<and> nextCb s = Some f \<and> index m = 0 \<and>
      rx ?resp = Some m \<longrightarrow>
      fired (stateOf (handleFrame s ?resp)) = fired s @ [(f, Records ?out)]"
  proof (intro allI impI, elim conjE)
    fix s :: symetrix and rx m f
    assume a: "nextResponse s = Some rx" "nextCb s = Some f" "index m = 0" "rx ?resp = Some m"
    from a have c: "classify (nextResponse s) ?resp = (None, Some ?resp)"
      by (intro classify_match_at_start)
    from handleFrame_response [OF c ne] a(2) parse [of "nextResponse s"]
    show "fired (stateOf (handleFrame s ?resp)) = fired s @ [(f, Records ?out)]"
      by blast
  qed
  from strip parse [of nr] handler show ?thesis by simp
qed

theorem block_response_parse_witness:
  "parseResponse
     (''GSB3 00001 00002'' @ [CR] @ [] @
      concat (map (\<lambda>(i, v, sep). ''#'' @ i @ ''='' @ v @ sep)
        [(''00001'', ''04096'', [CR]), (''00002'', ''65535'', [CR])]))
     (Some (regexPattern controlGetBlockRegex))
     = Inr (Records (map (\<lambda>(i, v, sep). (Number i, Number v))
         [(''00001'', ''04096'', [CR]), (''00002'', ''65535'', [CR])]), []) \<and>
   map (\<lambda>(i, v, sep). (Number i, Number v))
     [(''00001'', ''04096'', [CR]), (''00002'', ''65535'', [CR])]
     = [(1, 4096), (2, 65535)] \<and>
   fired (stateOf (onData awaitingBlock
     (''GSB3 00001 00002'' @ [CR] @ ''#00001=04096'' @ [CR] @ ''#00002=65535'' @ [CR])))
     = [(0, Records [(1, 4096), (2, 65535)])]"
proof -
  have h1: "take 4 ''GSB3 00001 00002'' = ''GSB3''" by simp
  have h2: "CR \<notin> set ''GSB3 00001 00002''" by simp
  have h3: "CHR ''#'' \<notin> set []" by simp
  have h4: "\<forall>(i, v, sep) \<in> set [(''00001'', ''04096'', [CR]), (''00002'', ''65535'', [CR])].
     length i = 5 \<and> list_all isDigit i \<and> length v = 5 \<and> list_all isDigit v
       \<and> CHR ''#'' \<notin> set sep"
    by (simp add: isDigit_def)
  have ev: "map (\<lambda>(i, v, sep). (Number i, Number v))
     [(''00001'', ''04096'', [CR]), (''00002'', ''65535'', [CR])]
     = [(1, 4096), (2, 65535)]"
    by (simp add: Number_def)
  have ev2: "fired (stateOf (onData awaitingBlock
     (''GSB3 00001 00002'' @ [CR] @ ''#00001=04096'' @ [CR] @ ''#00002=65535'' @ [CR])))
     = [(0, Records [(1, 4096), (2, 65535)])]"
    by code_simp
  from block_response_parse [OF h1 h2 h3 h4, of "Some (regexPattern controlGetBlockRegex)"]
  have "parseResponse
     (''GSB3 00001 00002'' @ [CR] @ [] @
      concat (map (\<lambda>(i, v, sep). ''#'' @ i @ ''='' @ v @ sep)
        [(''00001'', ''04096'', [CR]), (''00002'', ''65535'', [CR])]))
     (Some (regexPattern controlGetBlockRegex))
     = Inr (Records (map (\<lambda>(i, v, sep). (Number i, Number v))
         [(''00001'', ''04096'', [CR]), (''00002'', ''65535'', [CR])]), [])"
    by (elim conjE)
  with ev ev2 show ?thesis by (intro conjI)
qed

section \<open>Single flight and completion order\<close>

lemma length_inFlight: "length (inFlight s) \<le> 1"
  by (simp add: inFlight_def split: option.splits)

text \<open>
  C2. After any sequence of events on a new instance (and so at every instant of a run): at
  most one command is in flight and the sequencer is consistent; the handlers called, the
  handler in flight and the handlers queued, in this order, are a subsequence of the handlers
  submitted, in the order of submission (so the handlers are called in that order); when the
  submitted handlers are distinct, no handler is called twice, and none is both called and
  still held. In a run where no timer fires and the socket is writable throughout, no command
  is lost: every submitted command is completed, in flight or queued.
\<close>

theorem single_flight_fifo:
  "length (inFlight (stateOf (run (constructor dbg) es))) \<le> 1 \<and>
   singleFlight (stateOf (run (constructor dbg) es)) \<and>
   subseq (handlers (stateOf (run (constructor dbg) es))) (submitted es) \<and>
   (distinct (submitted es) \<longrightarrow> distinct (handlers (stateOf (run (constructor dbg) es)))) \<and>
   ((\<forall>e \<in> set es. undisturbed e) \<longrightarrow>
      (case run ((constructor dbg)\<lparr>readyState := Open\<rparr>) es of
         Inl x \<Rightarrow> True
       | Inr s' \<Rightarrow> handlers s' = submitted es))"
proof -
  let ?s = "stateOf (run (constructor dbg) es)"
  have h0: "handlers (constructor dbg) = []"
    by (simp add: handlers_def completed_def inFlight_def waiting_def constructor_def)
  from run_invariant [OF singleFlight_constructor, of dbg es]
  have sf: "singleFlight ?s" and sub: "subseq (handlers ?s) (submitted es)"
    by (simp_all add: h0)
  from sub have d: "distinct (submitted es) \<longrightarrow> distinct (handlers ?s)"
    by (auto intro: subseq_distinct)
  have c: "singleFlight ((constructor dbg)\<lparr>readyState := Open\<rparr>)"
    by (simp add: singleFlight_constructor)
  have w: "writable ((constructor dbg)\<lparr>readyState := Open\<rparr>)"
    by (simp add: writable_def)
  have u: "(\<forall>e \<in> set es. undisturbed e) \<longrightarrow>
      (case run ((constructor dbg)\<lparr>readyState := Open\<rparr>) es of
         Inl x \<Rightarrow> True
       | Inr s' \<Rightarrow> handlers s' = submitted es)"
    using run_undisturbed [OF c w, of es] by (auto simp: h0 split: sum.splits)
  from length_inFlight sf sub d u show ?thesis by blast
qed

theorem single_flight_fifo_witness:
  "submitted exampleRun = [0, 1, 2] \<and>
   completed (stateOf (run (constructor False) exampleRun)) = [0] \<and>
   inFlight (stateOf (run (constructor False) exampleRun)) = [2] \<and>
   waiting (stateOf (run (constructor False) exampleRun)) = [] \<and>
   subseq (handlers (stateOf (run (constructor False) exampleRun))) (submitted exampleRun) \<and>
   distinct (handlers (stateOf (run (constructor False) exampleRun))) \<and>
   (case run ((constructor False)\<lparr>readyState := Open\<rparr>) (take 6 exampleRun) of
      Inl x \<Rightarrow> False
    | Inr s' \<Rightarrow> handlers s' = [0, 1, 2] \<and> handlers s' = submitted (take 6 exampleRun))"
proof -
  have a: "submitted exampleRun = [0, 1, 2]"
    by code_simp
  have b: "completed (stateOf (run (constructor False) exampleRun)) = [0]"
    by code_simp
  have c: "inFlight (stateOf (run (constructor False) exampleRun)) = [2]"
    by code_simp
  have d: "waiting (stateOf (run (constructor False) exampleRun)) = []"
    by code_simp
  have e: "distinct (submitted exampleRun)"
    by (simp add: a)
  have f: "\<forall>e \<in> set (take 6 exampleRun). undisturbed e"
    by (simp add: exampleRun_def)
  have g: "(case run ((constructor False)\<lparr>readyState := Open\<rparr>) (take 6 exampleRun) of
      Inl x \<Rightarrow> False | Inr s' \<Rightarrow> handlers s' = [0, 1, 2])"
    by code_simp
  from single_flight_fifo [of False "take 6 exampleRun"] f g
  have h: "(case run ((constructor False)\<lparr>readyState := Open\<rparr>) (take 6 exampleRun) of
      Inl x \<Rightarrow> False
    | Inr s' \<Rightarrow> handlers s' = [0, 1, 2] \<and> handlers s' = submitted (take 6 exampleRun))"
    by (cases "run ((constructor False)\<lparr>readyState := Open\<rparr>) (take 6 exampleRun)") simp_all
  from single_flight_fifo [of False exampleRun] e
  have "subseq (handlers (stateOf (run (constructor False) exampleRun))) (submitted exampleRun)"
    and "distinct (handlers (stateOf (run (constructor False) exampleRun)))"
    by simp_all
  with a b c d h show ?thesis by simp
qed

section \<open>The no-response timeout\<close>

text \<open>
  The transition itself. A command is in flight with handler \<open>f\<close> and its timer \<open>h\<close> fires. No
  handler is called. With an empty queue the instance becomes ready to send, with nothing in
  flight and no timer pending; otherwise the head of the queue is taken off and handed to
  \<^verbatim>\<open>_send\<close>: on a writable socket it is written and becomes the command in flight, with a new
  timer of \<^verbatim>\<open>_noResponseTimeout\<close> milliseconds as the only pending one; on a socket that is
  not writable \<^verbatim>\<open>_send\<close> only logs. The sequencer is left exactly as by a frame that
  completes the command in flight. The abandoned handler is not called in any continuation of
  the run, provided it was not called before and is not queued or submitted again. The timeout
  is 2000 in every state of an instance.
\<close>

lemma timeout_transition:
  assumes "singleFlight s" and "timers s h \<noteq> None" and "nextCb s = Some f"
  shows "fired (onNoResponse s h) = fired s \<and>
    (sendBuffer s = [] \<longrightarrow>
       readyToSend (onNoResponse s h) \<and> nextCb (onNoResponse s h) = None \<and>
       nextResponse (onNoResponse s h) = None \<and> written (onNoResponse s h) = written s \<and>
       (\<forall>k. timers (onNoResponse s h) k = None)) \<and>
    (\<forall>q qs. sendBuffer s = q # qs \<longrightarrow>
       onNoResponse s h =
         send (s\<lparr>timers := Map.empty, nextResponse := None, nextCb := None, sendBuffer := qs\<rparr>)
           (command q) (regex q) (cb q)) \<and>
    (\<forall>q qs. sendBuffer s = q # qs \<and> writable s \<longrightarrow>
       sendBuffer (onNoResponse s h) = qs \<and> \<not> readyToSend (onNoResponse s h) \<and>
       nextCb (onNoResponse s h) = Some (cb q) \<and>
       nextResponse (onNoResponse s h) = Some (regex q) \<and>
       written (onNoResponse s h) = written s @ [command q] \<and>
       noResponse (onNoResponse s h) = Some (nextTimer s) \<and>
       timers (onNoResponse s h) = [nextTimer s \<mapsto> noResponseTimeout s]) \<and>
    (\<forall>q qs. sendBuffer s = q # qs \<and> \<not> writable s \<longrightarrow>
       sendBuffer (onNoResponse s h) = qs \<and> nextCb (onNoResponse s h) = None \<and>
       written (onNoResponse s h) = written s \<and>
       console (onNoResponse s h) = console s @ debugLine s (command q) @
         [ErrorLine ''Could not send to Symetrix. Socket not ready.'']) \<and>
    (\<forall>data s'. handleFrame s data = Inr s' \<and> fired s' \<noteq> fired s \<longrightarrow>
       sequencer s' = sequencer (onNoResponse s h)) \<and>
    (\<forall>es. f \<notin> set (completed s) \<and> f \<notin> set (waiting s) \<and> f \<notin> set (submitted es) \<longrightarrow>
       f \<notin> set (completed (stateOf (run (onNoResponse s h) es)))) \<and>
    (\<forall>dbg es. noResponseTimeout (stateOf (run (constructor dbg) es)) = 2000)"
proof -
  let ?t = "s\<lparr>timers := (timers s)(h := None)\<rparr>"
  have eq: "onNoResponse s h = onReadyToSend ?t"
    using assms(2) by (simp add: onNoResponse_def)
  have none: "\<And>k. timers ?t k = None"
    using pending_unique [OF assms(1,2)] by fastforce
  then have tm: "timers ?t = Map.empty" by blast
  have nr: "noResponse s = Some h"
    using assms(1,2) by (simp add: singleFlight_def)
  have 1: "fired (onNoResponse s h) = fired s"
    by (simp add: eq)
  have 2: "sendBuffer s = [] \<longrightarrow>
       readyToSend (onNoResponse s h) \<and> nextCb (onNoResponse s h) = None \<and>
       nextResponse (onNoResponse s h) = None \<and> written (onNoResponse s h) = written s \<and>
       (\<forall>k. timers (onNoResponse s h) k = None)"
    using none by (simp add: eq onReadyToSend_empty)
  have d: "\<forall>q qs. sendBuffer s = q # qs \<longrightarrow>
       onNoResponse s h =
         send (s\<lparr>timers := Map.empty, nextResponse := None, nextCb := None, sendBuffer := qs\<rparr>)
           (command q) (regex q) (cb q)"
    using tm by (simp add: eq onReadyToSend_dispatch)
  have 3: "\<forall>q qs. sendBuffer s = q # qs \<and> writable s \<longrightarrow>
       sendBuffer (onNoResponse s h) = qs \<and> \<not> readyToSend (onNoResponse s h) \<and>
       nextCb (onNoResponse s h) = Some (cb q) \<and>
       nextResponse (onNoResponse s h) = Some (regex q) \<and>
       written (onNoResponse s h) = written s @ [command q] \<and>
       noResponse (onNoResponse s h) = Some (nextTimer s) \<and>
       timers (onNoResponse s h) = [nextTimer s \<mapsto> noResponseTimeout s]"
    using tm by (simp add: eq onReadyToSend_dispatch send_writable)
  have 4: "\<forall>q qs. sendBuffer s = q # qs \<and> \<not> writable s \<longrightarrow>
       sendBuffer (onNoResponse s h) = qs \<and> nextCb (onNoResponse s h) = None \<and>
       written (onNoResponse s h) = written s \<and>
       console (onNoResponse s h) = console s @ debugLine s (command q) @
         [ErrorLine ''Could not send to Symetrix. Socket not ready.'']"
    by (simp add: eq onReadyToSend_dispatch send_not_writable debugLine_def)
  have 5: "\<forall>data s'. handleFrame s data = Inr s' \<and> fired s' \<noteq> fired s \<longrightarrow>
       sequencer s' = sequencer (onNoResponse s h)"
    using completion_like_timeout [OF nr] unfolding eq by blast
  have sf: "singleFlight (onNoResponse s h)"
    using singleFlight_step [OF assms(1), of "NoResponse h"] by simp
  have "subseq (handlers (onReadyToSend ?t)) (completed ?t @ waiting ?t)"
    by (rule handlers_onReadyToSend)
  then have hs: "set (handlers (onNoResponse s h)) \<subseteq> set (completed s) \<union> set (waiting s)"
    using subseq_set [of "handlers (onReadyToSend ?t)" "completed ?t @ waiting ?t"]
    by (simp add: eq completed_def waiting_def)
  have 6: "\<forall>es. f \<notin> set (completed s) \<and> f \<notin> set (waiting s) \<and> f \<notin> set (submitted es) \<longrightarrow>
       f \<notin> set (completed (stateOf (run (onNoResponse s h) es)))"
  proof (intro allI impI)
    fix es
    assume a: "f \<notin> set (completed s) \<and> f \<notin> set (waiting s) \<and> f \<notin> set (submitted es)"
    with hs have "f \<notin> set (handlers (onNoResponse s h))" by auto
    with sf a show "f \<notin> set (completed (stateOf (run (onNoResponse s h) es)))"
      by (intro never_called_later) simp_all
  qed
  have 7: "\<forall>dbg es. noResponseTimeout (stateOf (run (constructor dbg) es)) = 2000"
    by (simp add: noResponseTimeout_2000)
  from 1 2 d 3 4 5 6 7 show ?thesis by (intro conjI)
qed

text \<open>On the example with its socket open: the timer of the first command fires, the second
  is written and is in flight with a new timer, the third waits; the first handler is not
  called in the rest of the run; and a reply to the first command instead of the timeout
  would have left the sequencer the same.\<close>

lemma timeout_transition_example:
  "fired (onNoResponse exampleState 0) = fired exampleState \<and>
   fired (onNoResponse exampleState 0) = [] \<and>
   written exampleState = [''$q FU'' @ [CR]] \<and>
   written (onNoResponse exampleState 0) = [''$q FU'' @ [CR], ''$q GS2 7'' @ [CR]] \<and>
   nextCb (onNoResponse exampleState 0) = Some 1 \<and>
   waiting (onNoResponse exampleState 0) = [2] \<and>
   timers (onNoResponse exampleState 0) 0 = None \<and>
   timers (onNoResponse exampleState 0) 1 = Some 2000 \<and>
   0 \<notin> set (completed (stateOf (run (onNoResponse exampleState 0) (drop 7 exampleRun)))) \<and>
   fired (stateOf (handleFrame exampleState (''ACK'' @ [CR]))) = [(0, Boolean True)] \<and>
   sequencer (stateOf (handleFrame exampleState (''ACK'' @ [CR]))) =
     sequencer (onNoResponse exampleState 0)"
proof -
  have sf: "singleFlight exampleState"
    using run_invariant [OF singleFlight_constructor, of False "take 5 exampleRun"]
    by (simp add: exampleState_def)
  have t: "timers exampleState 0 \<noteq> None"
    by code_simp
  have n: "nextCb exampleState = Some 0"
    by code_simp
  have ev: "fired (onNoResponse exampleState 0) = [] \<and>
      written exampleState = [''$q FU'' @ [CR]] \<and>
      written (onNoResponse exampleState 0) = [''$q FU'' @ [CR], ''$q GS2 7'' @ [CR]] \<and>
      nextCb (onNoResponse exampleState 0) = Some 1 \<and>
      waiting (onNoResponse exampleState 0) = [2] \<and>
      timers (onNoResponse exampleState 0) 0 = None \<and>
      timers (onNoResponse exampleState 0) 1 = Some 2000"
    by code_simp
  have p: "0 \<notin> set (completed exampleState) \<and> 0 \<notin> set (waiting exampleState) \<and>
      0 \<notin> set (submitted (drop 7 exampleRun))"
    by code_simp
  note th = timeout_transition [OF sf t n]
  from th have 1: "fired (onNoResponse exampleState 0) = fired exampleState"
    by (rule conjunct1)
  from th have "\<forall>es. 0 \<notin> set (completed exampleState) \<and> 0 \<notin> set (waiting exampleState) \<and>
        0 \<notin> set (submitted es) \<longrightarrow>
      0 \<notin> set (completed (stateOf (run (onNoResponse exampleState 0) es)))"
    by (elim conjE)
  with p have 2:
    "0 \<notin> set (completed (stateOf (run (onNoResponse exampleState 0) (drop 7 exampleRun))))"
    by blast
  have f: "fired (stateOf (handleFrame exampleState (''ACK'' @ [CR]))) = [(0, Boolean True)] \<and>
     fired exampleState = [] \<and>
     (case handleFrame exampleState (''ACK'' @ [CR]) of Inl x \<Rightarrow> False | Inr x \<Rightarrow> True)"
    by code_simp
  then have r: "handleFrame exampleState (''ACK'' @ [CR]) =
      Inr (stateOf (handleFrame exampleState (''ACK'' @ [CR])))"
    by (cases "handleFrame exampleState (''ACK'' @ [CR])") (simp_all add: stateOf_def)
  from f have ne:
    "fired (stateOf (handleFrame exampleState (''ACK'' @ [CR]))) \<noteq> fired exampleState"
    by simp
  from th have "\<forall>data s'. handleFrame exampleState data = Inr s' \<and>
        fired s' \<noteq> fired exampleState \<longrightarrow>
      sequencer s' = sequencer (onNoResponse exampleState 0)"
    by (elim conjE)
  with r ne have 3: "sequencer (stateOf (handleFrame exampleState (''ACK'' @ [CR]))) =
      sequencer (onNoResponse exampleState 0)"
    by blast
  from f have 4: "fired (stateOf (handleFrame exampleState (''ACK'' @ [CR]))) = [(0, Boolean True)]"
    by (rule conjunct1)
  from 1 2 3 4 ev show ?thesis by (intro conjI) (elim conjE; assumption)+
qed

subsection \<open>The timeout on a socket that is not writable\<close>

text \<open>A stalled sequencer stays stalled whatever happens: a submitted command is queued, a
  frame can only be a push, a timer that fires is no longer pending, and the socket changing
  its state touches nothing else. Nothing is written and no handler is called.\<close>

lemma stalled_handleFrame:
  assumes "stalled s"
  shows "handleFrame s data = Inr s \<or>
    handleFrame s data = Inr (s\<lparr>pushes := pushes s @ [parseMultiple data]\<rparr>)"
  using assms
  by (simp add: stalled_def handleFrame_def classify_def findSplit_None emitPush_def)

lemma stalled_step:
  assumes "stalled s"
  shows "stalled (stateOf (step s e)) \<and> written (stateOf (step s e)) = written s \<and>
         fired (stateOf (step s e)) = fired s \<and>
         run s (e # es) = run (stateOf (step s e)) es"
proof (cases e)
  case (Submit cmd rx c)
  with assms show ?thesis
    by (cases c) (simp_all add: reqToSend_def stalled_def stateOf_def)
next
  case (Data d)
  show ?thesis
  proof (cases "endsWithCR d")
    case False
    with Data assms show ?thesis by (simp add: onData_def stalled_def stateOf_def)
  next
    case True
    have st: "stalled (s\<lparr>recvBuffer := []\<rparr>)"
      using assms by (simp add: stalled_def)
    from stalled_handleFrame [OF st, of "recvBuffer s @ d"] True Data assms
    show ?thesis by (auto simp: onData_def stalled_def stateOf_def)
  qed
next
  case (NoResponse h)
  with assms show ?thesis by (simp add: onNoResponse_def stalled_def stateOf_def)
next
  case (SocketState st)
  with assms show ?thesis by (simp add: stalled_def stateOf_def)
qed

lemma stalled_run:
  "stalled s \<Longrightarrow>
   stalled (stateOf (run s es)) \<and> written (stateOf (run s es)) = written s \<and>
   fired (stateOf (run s es)) = fired s"
proof (induction es arbitrary: s)
  case Nil
  then show ?case by (simp add: stateOf_def)
next
  case (Cons e es)
  from stalled_step [OF Cons.prems, of e es] have
    x: "stalled (stateOf (step s e))" "written (stateOf (step s e)) = written s"
       "fired (stateOf (step s e)) = fired s" "run s (e # es) = run (stateOf (step s e)) es"
    by blast+
  from Cons.IH [OF x(1)] x(2,3) show ?case unfolding x(4) by simp
qed

text \<open>The timeout with a command waiting, on a socket that is not writable, stalls the
  sequencer: the listener of \<^verbatim>\<open>readyToSend\<close> has emptied the slot and taken the head off the
  queue, and \<^verbatim>\<open>_send\<close> returns without writing, without a timer and with \<^verbatim>\<open>_readyToSend\<close>
  still false.\<close>

lemma timeout_stalls:
  assumes "singleFlight s" and "timers s h \<noteq> None" and "sendBuffer s = q # qs"
    and "\<not> writable s"
  shows "stalled (onNoResponse s h) \<and> sendBuffer (onNoResponse s h) = qs \<and>
    written (onNoResponse s h) = written s \<and> fired (onNoResponse s h) = fired s"
proof -
  have "\<And>k. timers (s\<lparr>timers := (timers s)(h := None)\<rparr>) k = None"
    using pending_unique [OF assms(1,2)] by fastforce
  moreover have "\<not> readyToSend s"
    using assms(1,3) by (auto simp: singleFlight_def)
  ultimately show ?thesis
    using assms(2,3,4)
    by (simp add: onNoResponse_def onReadyToSend_dispatch send_not_writable stalled_def)
qed

text \<open>
  C3. The sequencer does not always make the transition of a completion when the timeout
  elapses: with a command waiting and the socket not writable, the next command is taken off
  the queue and not sent, and the sequencer does not become idle either. In the example, the
  socket closes while the first command is in flight (handler 0, timer 0 of 2000 ms) and two
  commands wait (handlers 1 and 2); then the timer fires. Only the first command has been
  written; no handler has been called; the second command is gone from the queue, with a
  line on the console; nothing is in flight, no timer is pending and the instance is not ready
  to send. When the socket reconnects, a fourth command is submitted, a reply arrives and
  timers fire, still nothing more is written and the commands wait; and so after every
  sequence of events.
\<close>

theorem timeout_stalls_sequencer:
  "nextCb disconnectedState = Some 0 \<and>
   timers disconnectedState 0 = Some 2000 \<and>
   waiting disconnectedState = [1, 2] \<and>
   written disconnectedState = [''$q FU'' @ [CR]] \<and>
   written stalledState = [''$q FU'' @ [CR]] \<and>
   fired stalledState = [] \<and>
   waiting stalledState = [2] \<and>
   console stalledState = [ErrorLine ''Could not send to Symetrix. Socket not ready.''] \<and>
   nextCb stalledState = None \<and>
   \<not> readyToSend stalledState \<and>
   (\<forall>h. timers stalledState h = None) \<and>
   written (stateOf (run stalledState afterStall)) = [''$q FU'' @ [CR]] \<and>
   fired (stateOf (run stalledState afterStall)) = [] \<and>
   waiting (stateOf (run stalledState afterStall)) = [2, 3] \<and>
   (\<forall>es. written (stateOf (run stalledState es)) = [''$q FU'' @ [CR]] \<and>
         fired (stateOf (run stalledState es)) = [] \<and>
         nextCb (stateOf (run stalledState es)) = None \<and>
         \<not> readyToSend (stateOf (run stalledState es)))"
proof -
  have ev: "nextCb disconnectedState = Some 0 \<and>
      timers disconnectedState 0 = Some 2000 \<and>
      waiting disconnectedState = [1, 2] \<and>
      written disconnectedState = [''$q FU'' @ [CR]] \<and>
      written stalledState = [''$q FU'' @ [CR]] \<and>
      fired stalledState = [] \<and>
      waiting stalledState = [2] \<and>
      console stalledState = [ErrorLine ''Could not send to Symetrix. Socket not ready.''] \<and>
      nextCb stalledState = None \<and>
      \<not> readyToSend stalledState \<and>
      written (stateOf (run stalledState afterStall)) = [''$q FU'' @ [CR]] \<and>
      fired (stateOf (run stalledState afterStall)) = [] \<and>
      waiting (stateOf (run stalledState afterStall)) = [2, 3]"
    by code_simp
  have nw: "\<not> writable disconnectedState"
    by code_simp
  have sf: "singleFlight disconnectedState"
    using run_invariant [OF singleFlight_constructor, of False
        "take 5 exampleRun @ [SocketState Closed]"]
    by (simp add: disconnectedState_def)
  from ev have t: "timers disconnectedState 0 \<noteq> None"
    by simp
  from ev obtain q qs where b: "sendBuffer disconnectedState = q # qs"
    by (cases "sendBuffer disconnectedState") (auto simp: waiting_def)
  from timeout_stalls [OF sf t b nw] have st: "stalled stalledState"
    by (simp add: stalledState_def)
  then have tm: "\<forall>h. timers stalledState h = None"
    by (simp add: stalled_def)
  have run: "\<forall>es. written (stateOf (run stalledState es)) = [''$q FU'' @ [CR]] \<and>
      fired (stateOf (run stalledState es)) = [] \<and>
      nextCb (stateOf (run stalledState es)) = None \<and>
      \<not> readyToSend (stateOf (run stalledState es))"
  proof
    fix es
    from stalled_run [OF st, of es] ev
    show "written (stateOf (run stalledState es)) = [''$q FU'' @ [CR]] \<and>
      fired (stateOf (run stalledState es)) = [] \<and>
      nextCb (stateOf (run stalledState es)) = None \<and>
      \<not> readyToSend (stateOf (run stalledState es))"
      by (simp add: stalled_def)
  qed
  from ev tm run show ?thesis by (intro conjI) (elim conjE; assumption)+
qed


section \<open>Dispatch on a socket that is not writable\<close>

text \<open>
  C9, as the code has it. When the socket is not writable, \<^verbatim>\<open>_send\<close> changes nothing but the
  console, to which it writes the diagnostic (after the debug line, when debugging is on):
  nothing is written to the socket, no error is thrown and no handler is called, now or
  later, because the command is kept nowhere. So \<^verbatim>\<open>reqToSend\<close> on a ready instance returns
  normally with the command dropped, and a dispatch from the queue takes the head off and
  leaves the rest of the queue as it was.
\<close>

theorem send_not_ready:
  assumes "\<not> writable s"
  shows "send s cmd rx f =
      s\<lparr>console := console s @ debugLine s cmd @
          [ErrorLine ''Could not send to Symetrix. Socket not ready.'']\<rparr> \<and>
    (readyToSend s \<longrightarrow>
       reqToSend s cmd rx (JSFunction f) =
         Inr (s\<lparr>console := console s @ debugLine s cmd @
                [ErrorLine ''Could not send to Symetrix. Socket not ready.'']\<rparr>) \<and>
       \<not> surfacedToCaller s (reqToSend s cmd rx (JSFunction f))) \<and>
    (\<forall>q qs. sendBuffer s = q # qs \<longrightarrow>
       onReadyToSend s =
         s\<lparr>nextResponse := None, nextCb := None, sendBuffer := qs,
           console := console s @ debugLine s (command q) @
             [ErrorLine ''Could not send to Symetrix. Socket not ready.'']\<rparr>)"
  using assms
  by (simp add: send_not_writable reqToSend_def onReadyToSend_dispatch debugLine_def
      surfacedToCaller_def)

theorem send_not_ready_witness:
  "send (constructor True) ''$q R!'' (regexPattern ackNakRegex) 3 =
      (constructor True)\<lparr>console := console (constructor True) @
          debugLine (constructor True) ''$q R!'' @
          [ErrorLine ''Could not send to Symetrix. Socket not ready.'']\<rparr> \<and>
   debugLine (constructor True) ''$q R!'' = [Log ''Sending to Symetrix $q R!''] \<and>
   waiting (onReadyToSend ((constructor False)\<lparr>readyToSend := False, sendBuffer :=
      [\<lparr>command = ''a'', regex = regexPattern ackNakRegex, cb = 1\<rparr>,
       \<lparr>command = ''b'', regex = regexPattern ackNakRegex, cb = 2\<rparr>]\<rparr>)) = [2] \<and>
   written (onReadyToSend ((constructor False)\<lparr>readyToSend := False, sendBuffer :=
      [\<lparr>command = ''a'', regex = regexPattern ackNakRegex, cb = 1\<rparr>,
       \<lparr>command = ''b'', regex = regexPattern ackNakRegex, cb = 2\<rparr>]\<rparr>)) = []"
proof -
  have nw: "\<not> writable (constructor True)"
    by (simp add: writable_def constructor_def)
  have d: "debugLine (constructor True) ''$q R!'' = [Log ''Sending to Symetrix $q R!'']"
    by (simp add: debugLine_def constructor_def)
  have ev: "waiting (onReadyToSend ((constructor False)\<lparr>readyToSend := False, sendBuffer :=
      [\<lparr>command = ''a'', regex = regexPattern ackNakRegex, cb = 1\<rparr>,
       \<lparr>command = ''b'', regex = regexPattern ackNakRegex, cb = 2\<rparr>]\<rparr>)) = [2] \<and>
   written (onReadyToSend ((constructor False)\<lparr>readyToSend := False, sendBuffer :=
      [\<lparr>command = ''a'', regex = regexPattern ackNakRegex, cb = 1\<rparr>,
       \<lparr>command = ''b'', regex = regexPattern ackNakRegex, cb = 2\<rparr>]\<rparr>)) = []"
    by code_simp
  from send_not_ready [OF nw, of "''$q R!''" "regexPattern ackNakRegex" 3]
  have "send (constructor True) ''$q R!'' (regexPattern ackNakRegex) 3 =
      (constructor True)\<lparr>console := console (constructor True) @
          debugLine (constructor True) ''$q R!'' @
          [ErrorLine ''Could not send to Symetrix. Socket not ready.'']\<rparr>"
    by (rule conjunct1)
  with d ev show ?thesis by (intro conjI) (elim conjE; assumption)+
qed

text \<open>
  The claim as the specification states it, that the condition is surfaced to the caller,
  fails: on a new instance, whose socket is still connecting, \<^verbatim>\<open>reqToSend\<close> with a proper
  handler returns normally; the only trace is the line on the console; the handler is neither
  called nor kept, so it will not be called later either.
\<close>

theorem send_not_ready_counterexample:
  "\<not> writable (constructor False) \<and>
   \<not> surfacedToCaller (constructor False)
       (reqToSend (constructor False) (''$q FU'' @ [CR]) (regexPattern ackNakRegex)
          (JSFunction 0)) \<and>
   reqToSend (constructor False) (''$q FU'' @ [CR]) (regexPattern ackNakRegex) (JSFunction 0) =
     Inr ((constructor False)
            \<lparr>console := [ErrorLine ''Could not send to Symetrix. Socket not ready.'']\<rparr>)"
  by (simp add: reqToSend_def send_def constructor_def writable_def surfacedToCaller_def)

section \<open>The handler check of \<^verbatim>\<open>reqToSend\<close>\<close>



section \<open>Validation of the caller-facing operations\<close>

lemma validRange_iff:
  "validRange v low high \<longleftrightarrow> v = JSNaN \<or> (\<exists>n. v = JSNumber n \<and> low \<le> n \<and> n \<le> high)"
  by (cases v) (auto simp: validRange_def)

lemma validControlId_iff:
  "validControlId v \<longleftrightarrow> v = JSNaN \<or> (\<exists>n. v = JSNumber n \<and> 0 \<le> n \<and> n \<le> 10000)"
  by (simp add: validControlId_def validRange_iff)

text \<open>
  C6. The identifier check accepts the numbers from 0 to 10000: the identifier 0, which the
  documentation of the operations excludes, passes, and \<^verbatim>\<open>controlGet(0)\<close> on a connected
  instance rejects nothing and writes the command for control 0.
\<close>

theorem validControlId_zero:
  "validControlId (JSNumber 0) \<and>
   (case controlGet connected 0 (JSNumber 0) of
      (rejected, out) \<Rightarrow>
        rejected = None \<and>
        (case out of
           Inl x \<Rightarrow> False
         | Inr s' \<Rightarrow> written s' = [''$q GS2 0'' @ [CR]] \<and> nextCb s' = Some 0))"
  by code_simp

text \<open>
  C5. An operation that finds its arguments invalid rejects its promise and then goes on: the
  command is built and handed to \<^verbatim>\<open>reqToSend\<close> all the same. \<^verbatim>\<open>controlSet(1, 70000)\<close> on a
  connected, idle instance rejects and writes the command to the socket, which becomes the
  command in flight; \<^verbatim>\<open>controlSet(20000, 5)\<close> while a command is in flight rejects and
  appends the command to the queue; \<^verbatim>\<open>controlGet(undefined)\<close> rejects and writes a command
  without identifier.
\<close>

theorem controlSet_invalid_value:
  "(case controlSet connected 0 (JSNumber 1) (JSNumber 70000) of
      (rejected, out) \<Rightarrow>
        rejected = Some (Error ''controlSet invalid id 1 or value 70000'') \<and>
        (case out of
           Inl x \<Rightarrow> False
         | Inr s' \<Rightarrow> written s' = [''$q CS 1 70000'' @ [CR]] \<and> nextCb s' = Some 0 \<and>
                      \<not> readyToSend s' \<and> timers s' 0 = Some 2000)) \<and>
   (case controlSet awaitingAck 1 (JSNumber 20000) (JSNumber 5) of
      (rejected, out) \<Rightarrow>
        rejected = Some (Error ''controlSet invalid id 20000 or value 5'') \<and>
        (case out of
           Inl x \<Rightarrow> False
         | Inr s' \<Rightarrow> map command (sendBuffer s') = [''$q CS 20000 5'' @ [CR]] \<and>
                      waiting s' = [1])) \<and>
   (case controlGet connected 0 JSUndefined of
      (rejected, out) \<Rightarrow>
        rejected = Some (Error ''controlGet invalid id undefined'') \<and>
        (case out of
           Inl x \<Rightarrow> False
         | Inr s' \<Rightarrow> written s' = [''$q GS2'' @ [CR]] \<and> nextCb s' = Some 0))"
  by code_simp

theorem controlSet_invalid_value_witness:
  "fst (controlSet connected 0 (JSNumber 1) (JSNumber 70000))
     = Some (Error ''controlSet invalid id 1 or value 70000'') \<and>
   written (stateOf (snd (controlSet connected 0 (JSNumber 1) (JSNumber 70000))))
     = [''$q CS 1 70000'' @ [CR]] \<and>
   waiting (stateOf (snd (controlSet awaitingAck 1 (JSNumber 20000) (JSNumber 5)))) = [1]"
  using controlSet_invalid_value
  by (cases "controlSet connected 0 (JSNumber 1) (JSNumber 70000)";
      cases "controlSet awaitingAck 1 (JSNumber 20000) (JSNumber 5)")
     (auto split: sum.splits)

section \<open>Single-record replies\<close>

text \<open>What \<^verbatim>\<open>_parseSingle\<close> returns for a match with named groups: a group counts only when
  its capture is not empty.\<close>

lemma parseSingle_groups:
  assumes "rx data = Some m" and "groups m = Some g"
  shows "parseSingle data rx =
     (if truthy (g ''ret'') then Inr (Scalar (the (g ''ret'')), [])
      else if truthy (g ''ack'') then Inr (Boolean True, [])
      else if truthy (g ''nak'') then Inr (Boolean False, [])
      else Inr (Undefined, [ErrorLine (''Unkown response format '' @ data)]))"
  using assms by (auto simp: parseSingle_def truthy_def split: option.splits)

text \<open>A pattern without named groups makes \<^verbatim>\<open>_parseSingle\<close> throw.\<close>

lemma parseSingle_no_groups:
  assumes "rx data = Some m" and "groups m = None"
  shows "parseSingle data rx
           = Inl (TypeError ''Cannot read properties of undefined (reading 'ret')'')"
  using assms by (simp add: parseSingle_def)

text \<open>Two replies of the usual kind: a negative acknowledgement, and the value of a
  control.\<close>

lemma parseSingle_nak:
  "parseSingle (''NAK'' @ [CR]) (regexPattern ackNakRegex) = Inr (Boolean False, [])"
  by code_simp

lemma parseSingle_value:
  "parseSingle (''1000 04096'' @ [CR]) (regexPattern controlGetRegex) = Inr (Scalar ''04096'', [])"
  by code_simp

text \<open>
  C8. The reply \<^verbatim>\<open>GSYSS \<close> followed by the terminator, to \<^verbatim>\<open>getSystemString\<close>: the pattern
  matches at offset 0 and its group \<^verbatim>\<open>ret\<close> captures the empty string. \<^verbatim>\<open>_parseSingle\<close>
  does not return the capture: it logs the reply as of unknown format and returns
  \<^verbatim>\<open>undefined\<close>, which the handler receives.
\<close>

theorem parseSingle_empty_capture:
  "regexPattern getSystemStringRegex (''GSYSS '' @ [CR])
     = Some \<lparr>index = 0, groups = Some [''ret'' \<mapsto> []]\<rparr> \<and>
   parseSingle (''GSYSS '' @ [CR]) (regexPattern getSystemStringRegex)
     = Inr (Undefined, [ErrorLine (''Unkown response format '' @ ''GSYSS '' @ [CR])]) \<and>
   (case onData awaitingSystemString (''GSYSS '' @ [CR]) of
      Inl x \<Rightarrow> False
    | Inr s' \<Rightarrow> fired s' = [(0, Undefined)] \<and>
        console s' = [ErrorLine (''Unkown response format '' @ ''GSYSS '' @ [CR])])"
proof -
  have 1: "regexPattern getSystemStringRegex (''GSYSS '' @ [CR])
     = Some \<lparr>index = 0, groups = Some [''ret'' \<mapsto> []]\<rparr>"
    by (simp add: regexPattern_def getSystemStringRegex_def oneChar_def isSpace_def
        isLineTerminator_def)
  have 2: "parseSingle (''GSYSS '' @ [CR]) (regexPattern getSystemStringRegex)
     = Inr (Undefined, [ErrorLine (''Unkown response format '' @ ''GSYSS '' @ [CR])])"
    using parseSingle_groups [of "regexPattern getSystemStringRegex" "''GSYSS '' @ [CR]"
        "\<lparr>index = 0, groups = Some [''ret'' \<mapsto> []]\<rparr>" "[''ret'' \<mapsto> []]", OF 1]
    by (simp add: truthy_def)
  have 3: "(case onData awaitingSystemString (''GSYSS '' @ [CR]) of
      Inl x \<Rightarrow> False
    | Inr s' \<Rightarrow> fired s' = [(0, Undefined)] \<and>
        console s' = [ErrorLine (''Unkown response format '' @ ''GSYSS '' @ [CR])])"
    by code_simp
  from 1 2 3 show ?thesis by (intro conjI)
qed

end
